theory Spec2Isabelle
  imports Complex_Main "HOL-Library.Multiset"
begin

section \<open>JavaScript numbers and arrays\<close>

text \<open>
  A JavaScript \<^verbatim>\<open>number\<close> is modelled as an exact real or \<open>NaN\<close>. The arrays of the
  program are declared \<^verbatim>\<open>number[]\<close>, but after an import they can hold \<^verbatim>\<open>null\<close>, which is
  the third value \<open>Null\<close>. Reading an array slot that does not exist gives \<^verbatim>\<open>undefined\<close>,
  which every arithmetic operation of the program turns into \<open>NaN\<close>; the model reads it as
  \<open>NaN\<close> directly. Rounding and the infinities of IEEE doubles are not modelled here (the
  section on binary64 below adds them for the forward pass). Sizes and counters are
  natural numbers.
\<close>

datatype jsnum = Num real | NaN | Null

text \<open>
  \<^verbatim>\<open>ToNumber\<close>, which every arithmetic operator, comparison and \<^verbatim>\<open>Math\<close> function applies
  to its operands: \<^verbatim>\<open>null\<close> is read as \<open>0\<close>; \<open>NaN\<close> has no real behind it.
\<close>

fun to_number :: "jsnum \<Rightarrow> real option" where
  "to_number (Num r) = Some r"
| "to_number Null = Some 0"
| "to_number NaN = None"

definition jadd :: "jsnum \<Rightarrow> jsnum \<Rightarrow> jsnum" where
  "jadd a b =
     (case (to_number a, to_number b) of (Some x, Some y) \<Rightarrow> Num (x + y) | _ \<Rightarrow> NaN)"

definition jsub :: "jsnum \<Rightarrow> jsnum \<Rightarrow> jsnum" where
  "jsub a b =
     (case (to_number a, to_number b) of (Some x, Some y) \<Rightarrow> Num (x - y) | _ \<Rightarrow> NaN)"

definition jmul :: "jsnum \<Rightarrow> jsnum \<Rightarrow> jsnum" where
  "jmul a b =
     (case (to_number a, to_number b) of (Some x, Some y) \<Rightarrow> Num (x * y) | _ \<Rightarrow> NaN)"

text \<open>
  Division: \<^verbatim>\<open>0 / 0\<close> is \<open>NaN\<close>. A nonzero number over zero would be an infinity, which
  the model does not have; the divisor of the sigmoid is positive, and the other two
  divisions of the program have the numerator \<open>0\<close> whenever the divisor is \<open>0\<close>.
\<close>

definition jdiv :: "jsnum \<Rightarrow> jsnum \<Rightarrow> jsnum" where
  "jdiv a b =
     (case (to_number a, to_number b) of
        (Some x, Some y) \<Rightarrow> (if y = 0 then NaN else Num (x / y))
      | _ \<Rightarrow> NaN)"

definition jneg :: "jsnum \<Rightarrow> jsnum" where
  "jneg a = (case to_number a of Some x \<Rightarrow> Num (- x) | None \<Rightarrow> NaN)"

definition jexp :: "jsnum \<Rightarrow> jsnum" where
  "jexp a = (case to_number a of Some x \<Rightarrow> Num (exp x) | None \<Rightarrow> NaN)"

definition jmax :: "jsnum \<Rightarrow> jsnum \<Rightarrow> jsnum" where
  "jmax a b =
     (case (to_number a, to_number b) of (Some x, Some y) \<Rightarrow> Num (max x y) | _ \<Rightarrow> NaN)"

definition jmin :: "jsnum \<Rightarrow> jsnum \<Rightarrow> jsnum" where
  "jmin a b =
     (case (to_number a, to_number b) of (Some x, Some y) \<Rightarrow> Num (min x y) | _ \<Rightarrow> NaN)"

text \<open>\<^verbatim>\<open>a > b\<close>: false as soon as one side is \<open>NaN\<close>.\<close>

definition jgt :: "jsnum \<Rightarrow> jsnum \<Rightarrow> bool" where
  "jgt a b = (case (to_number a, to_number b) of (Some x, Some y) \<Rightarrow> x > y | _ \<Rightarrow> False)"

text \<open>A real number: neither \<open>NaN\<close> nor \<^verbatim>\<open>null\<close>.\<close>

fun is_num :: "jsnum \<Rightarrow> bool" where
  "is_num (Num r) = True"
| "is_num NaN = False"
| "is_num Null = False"

text \<open>The real behind a number; only used where the number is known to be a real.\<close>

fun val :: "jsnum \<Rightarrow> real" where
  "val (Num r) = r"
| "val NaN = 0"
| "val Null = 0"

text \<open>\<^verbatim>\<open>xs[i]\<close> read as a number: \<^verbatim>\<open>undefined\<close> (so \<open>NaN\<close>) out of range.\<close>

definition aget :: "jsnum list \<Rightarrow> nat \<Rightarrow> jsnum" where
  "aget xs i = (if i < length xs then xs ! i else NaN)"

text \<open>\<^verbatim>\<open>xs[i] = v\<close>: past the end JavaScript extends the array, leaving holes.\<close>

definition aset :: "jsnum list \<Rightarrow> nat \<Rightarrow> jsnum \<Rightarrow> jsnum list" where
  "aset xs i v =
     (if i < length xs then xs[i := v] else xs @ replicate (i - length xs) NaN @ [v])"

datatype error =
    DimensionError nat nat
  | InvalidGameState
  | TypeError

text \<open>\<^verbatim>\<open>m[i]\<close> followed by an index: a missing row makes the access throw a TypeError.\<close>

definition rowget :: "jsnum list list \<Rightarrow> nat \<Rightarrow> error + jsnum list" where
  "rowget m i = (if i < length m then Inr (m ! i) else Inl TypeError)"

definition bindE :: "error + 'a \<Rightarrow> ('a \<Rightarrow> error + 'b) \<Rightarrow> error + 'b" where
  "bindE m f = (case m of Inl e \<Rightarrow> Inl e | Inr v \<Rightarrow> f v)"

text \<open>A \<^verbatim>\<open>for\<close> loop over the given indices (or elements) whose body may throw.\<close>

fun for_each :: "'i list \<Rightarrow> ('i \<Rightarrow> 's \<Rightarrow> error + 's) \<Rightarrow> 's \<Rightarrow> error + 's" where
  "for_each [] body s = Inr s"
| "for_each (i # is) body s = bindE (body i s) (for_each is body)"

section \<open>NeuralNetwork\<close>

record NeuralNetwork =
  inputSize :: nat
  hiddenSize :: nat
  outputSize :: nat
  weightsIH :: "jsnum list list"
  weightsHO :: "jsnum list list"
  biasH :: "jsnum list"
  biasO :: "jsnum list"
  lastInputs :: "jsnum list option"
  lastHidden :: "jsnum list option"
  lastOutput :: "jsnum list option"

text \<open>\<^verbatim>\<open>Math.random()\<close>: the stream of the draws still to come, each in \<open>[0, 1)\<close>.\<close>

type_synonym rng = "nat \<Rightarrow> real"

definition random :: "rng \<Rightarrow> real \<times> rng" where
  "random g = (g 0, \<lambda>n. g (Suc n))"

definition valid_rng :: "rng \<Rightarrow> bool" where
  "valid_rng g = (\<forall>n. 0 \<le> g n \<and> g n < 1)"

text \<open>The inner loop of \<^verbatim>\<open>initializeWeights\<close>: one row of \<open>cols\<close> draws in \<open>[-1, 1)\<close>.\<close>

fun initializeRow :: "nat \<Rightarrow> rng \<Rightarrow> jsnum list \<times> rng" where
  "initializeRow 0 g = ([], g)"
| "initializeRow (Suc cols) g =
     (let (r, g1) = random g; (row, g2) = initializeRow cols g1
      in (Num (r * 2 - 1) # row, g2))"

fun initializeWeights :: "nat \<Rightarrow> nat \<Rightarrow> rng \<Rightarrow> jsnum list list \<times> rng" where
  "initializeWeights 0 cols g = ([], g)"
| "initializeWeights (Suc rows) cols g =
     (let (row, g1) = initializeRow cols g; (rest, g2) = initializeWeights rows cols g1
      in (row # rest, g2))"

definition constructor :: "nat \<Rightarrow> nat \<Rightarrow> nat \<Rightarrow> rng \<Rightarrow> NeuralNetwork \<times> rng" where
  "constructor inSize hidSize outSize g =
     (let (wIH, g1) = initializeWeights inSize hidSize g;
          (wHO, g2) = initializeWeights hidSize outSize g1
      in (\<lparr>inputSize = inSize, hiddenSize = hidSize, outputSize = outSize,
           weightsIH = wIH, weightsHO = wHO,
           biasH = replicate hidSize (Num 0), biasO = replicate outSize (Num 0),
           lastInputs = None, lastHidden = None, lastOutput = None\<rparr>, g2))"

text \<open>
  \<^verbatim>\<open>sigmoid\<close> in exact arithmetic: the formula the program evaluates. Its value in doubles,
  where the result of each operation is rounded, is \<open>sigmoid64\<close> below.
\<close>

definition sigmoid :: "jsnum \<Rightarrow> jsnum" where
  "sigmoid x =
     jdiv (Num 1) (jadd (Num 1) (jexp (jneg (jmax (Num (- 500)) (jmin (Num 500) x)))))"

definition sigmoidDerivative :: "jsnum \<Rightarrow> jsnum" where
  "sigmoidDerivative x = jmul x (jsub (Num 1) x)"

text \<open>
  \<^verbatim>\<open>forwardPass\<close>, loop by loop. \<open>hiddenSum\<close> is the inner loop of the first block (the
  pre-activation of hidden unit \<open>h\<close>), \<open>hiddenLayer\<close> the outer one building
  \<^verbatim>\<open>lastHidden\<close>; \<open>outputSum\<close> and \<open>outputLayer\<close> are the second block.
\<close>

definition hiddenSum :: "NeuralNetwork \<Rightarrow> jsnum list \<Rightarrow> nat \<Rightarrow> error + jsnum" where
  "hiddenSum net inputs h =
     for_each [0..<inputSize net]
       (\<lambda>i sum. bindE (rowget (weightsIH net) i)
          (\<lambda>row. Inr (jadd sum (jmul (aget inputs i) (aget row h)))))
       (aget (biasH net) h)"

definition hiddenLayer :: "NeuralNetwork \<Rightarrow> jsnum list \<Rightarrow> error + jsnum list" where
  "hiddenLayer net inputs =
     for_each [0..<hiddenSize net]
       (\<lambda>h hidden. bindE (hiddenSum net inputs h) (\<lambda>sum. Inr (aset hidden h (sigmoid sum))))
       []"

definition outputSum :: "NeuralNetwork \<Rightarrow> jsnum list \<Rightarrow> nat \<Rightarrow> error + jsnum" where
  "outputSum net hidden o' =
     for_each [0..<hiddenSize net]
       (\<lambda>h sum. bindE (rowget (weightsHO net) h)
          (\<lambda>row. Inr (jadd sum (jmul (aget hidden h) (aget row o')))))
       (aget (biasO net) o')"

definition outputLayer :: "NeuralNetwork \<Rightarrow> jsnum list \<Rightarrow> error + jsnum list" where
  "outputLayer net hidden =
     for_each [0..<outputSize net]
       (\<lambda>o' output. bindE (outputSum net hidden o') (\<lambda>sum. Inr (aset output o' (sigmoid sum))))
       []"

definition forwardPass :: "NeuralNetwork \<Rightarrow> jsnum list \<Rightarrow> error + (jsnum list \<times> NeuralNetwork)" where
  "forwardPass net inputs =
     (if length inputs \<noteq> inputSize net
      then Inl (DimensionError (inputSize net) (length inputs))
      else bindE (hiddenLayer net inputs) (\<lambda>hidden.
           bindE (outputLayer net hidden) (\<lambda>output.
             Inr (output, net\<lparr>lastInputs := Some inputs, lastHidden := Some hidden,
                             lastOutput := Some output\<rparr>))))"


text \<open>
  \<^verbatim>\<open>train\<close> (one backpropagation step), loop by loop. The first loop builds
  \<^verbatim>\<open>outputErrors\<close> and the sum of squared errors.
\<close>

definition outputErrorsLoop ::
  "NeuralNetwork \<Rightarrow> jsnum list \<Rightarrow> jsnum list \<Rightarrow> jsnum list \<times> jsnum" where
  "outputErrorsLoop net targets outputs =
     foldl (\<lambda>(outputErrors, mse) o'.
              let error = jsub (aget targets o') (aget outputs o')
              in (aset outputErrors o' (jmul error (sigmoidDerivative (aget outputs o'))),
                  jadd mse (jmul error error)))
       ([], Num 0) [0..<outputSize net]"

definition hiddenErrorSum :: "NeuralNetwork \<Rightarrow> jsnum list \<Rightarrow> nat \<Rightarrow> error + jsnum" where
  "hiddenErrorSum net outputErrors h =
     for_each [0..<outputSize net]
       (\<lambda>o' error. bindE (rowget (weightsHO net) h)
          (\<lambda>row. Inr (jadd error (jmul (aget outputErrors o') (aget row o')))))
       (Num 0)"

definition hiddenErrorsLoop ::
  "NeuralNetwork \<Rightarrow> jsnum list \<Rightarrow> jsnum list \<Rightarrow> error + jsnum list" where
  "hiddenErrorsLoop net outputErrors hidden =
     for_each [0..<hiddenSize net]
       (\<lambda>h hiddenErrors. bindE (hiddenErrorSum net outputErrors h)
          (\<lambda>error. Inr (aset hiddenErrors h (jmul error (sigmoidDerivative (aget hidden h))))))
       []"

text \<open>\<^verbatim>\<open>w[r][c] += v\<close> on a matrix: the row must exist, the slot is extended if it does not.\<close>

definition addAt :: "jsnum list list \<Rightarrow> nat \<Rightarrow> nat \<Rightarrow> jsnum \<Rightarrow> error + jsnum list list" where
  "addAt w r c v =
     bindE (rowget w r) (\<lambda>row. Inr (w[r := aset row c (jadd (aget row c) v)]))"

definition updateWeightsHO ::
  "NeuralNetwork \<Rightarrow> jsnum \<Rightarrow> jsnum list \<Rightarrow> jsnum list \<Rightarrow> error + jsnum list list" where
  "updateWeightsHO net learningRate outputErrors hidden =
     for_each [0..<hiddenSize net]
       (\<lambda>h. for_each [0..<outputSize net]
          (\<lambda>o' w. addAt w h o' (jmul (jmul learningRate (aget outputErrors o')) (aget hidden h))))
       (weightsHO net)"

definition updateBiasO :: "NeuralNetwork \<Rightarrow> jsnum \<Rightarrow> jsnum list \<Rightarrow> jsnum list" where
  "updateBiasO net learningRate outputErrors =
     foldl (\<lambda>b o'. aset b o' (jadd (aget b o') (jmul learningRate (aget outputErrors o'))))
       (biasO net) [0..<outputSize net]"

definition updateWeightsIH ::
  "NeuralNetwork \<Rightarrow> jsnum \<Rightarrow> jsnum list \<Rightarrow> jsnum list \<Rightarrow> error + jsnum list list" where
  "updateWeightsIH net learningRate hiddenErrors lastIn =
     for_each [0..<inputSize net]
       (\<lambda>i. for_each [0..<hiddenSize net]
          (\<lambda>h w. addAt w i h (jmul (jmul learningRate (aget hiddenErrors h)) (aget lastIn i))))
       (weightsIH net)"

definition updateBiasH :: "NeuralNetwork \<Rightarrow> jsnum \<Rightarrow> jsnum list \<Rightarrow> jsnum list" where
  "updateBiasH net learningRate hiddenErrors =
     foldl (\<lambda>b h. aset b h (jadd (aget b h) (jmul learningRate (aget hiddenErrors h))))
       (biasH net) [0..<hiddenSize net]"

text \<open>
  \<^verbatim>\<open>this.lastHidden![h]\<close> and \<^verbatim>\<open>this.lastInputs![i]\<close> read the caches the forward pass has
  just written; on \<^verbatim>\<open>null\<close> the read would throw a TypeError.
\<close>

definition train ::
  "NeuralNetwork \<Rightarrow> jsnum list \<Rightarrow> jsnum list \<Rightarrow> jsnum \<Rightarrow> error + (jsnum \<times> NeuralNetwork)" where
  "train net inputs targets learningRate =
     bindE (forwardPass net inputs) (\<lambda>(outputs, net1).
       let (outputErrors, mse0) = outputErrorsLoop net1 targets outputs;
           mse = jdiv mse0 (Num (real (outputSize net1)))
       in case (lastHidden net1, lastInputs net1) of
            (Some hidden, Some lastIn) \<Rightarrow>
              bindE (hiddenErrorsLoop net1 outputErrors hidden) (\<lambda>hiddenErrors.
              bindE (updateWeightsHO net1 learningRate outputErrors hidden) (\<lambda>wHO.
              let bO = updateBiasO net1 learningRate outputErrors
              in bindE (updateWeightsIH net1 learningRate hiddenErrors lastIn) (\<lambda>wIH.
              let bH = updateBiasH net1 learningRate hiddenErrors
              in Inr (mse, net1\<lparr>weightsIH := wIH, weightsHO := wHO,
                                 biasH := bH, biasO := bO\<rparr>))))
          | _ \<Rightarrow> Inl TypeError)"

text \<open>The game state handed over by the game: \<^verbatim>\<open>null\<close> (here \<open>None\<close>) when there is no bird.\<close>

record gameState =
  birdY :: jsnum
  birdVelocity :: jsnum
  pipeDistance :: jsnum
  pipeGapY :: jsnum

definition predict :: "NeuralNetwork \<Rightarrow> gameState option \<Rightarrow> error + (bool \<times> NeuralNetwork)" where
  "predict net gs =
     (case gs of
        None \<Rightarrow> Inl InvalidGameState
      | Some g \<Rightarrow>
          bindE (forwardPass net [birdY g, birdVelocity g, pipeDistance g, pipeGapY g])
            (\<lambda>(output, net1). Inr (jgt (aget output 0) (Num 0.5), net1)))"

text \<open>
  \<^verbatim>\<open>copy\<close>: a new network from the constructor (which draws random weights), whose
  weights are then overwritten entry by entry; \<open>copyEntries\<close> is the shape both double
  loops have, \<^verbatim>\<open>dst[r][c] = src[r][c]\<close> for \<open>r < rows\<close>, \<open>c < cols\<close>. The biases are
  replaced by spread copies.
\<close>

definition copyEntries ::
  "jsnum list list \<Rightarrow> jsnum list list \<Rightarrow> nat \<Rightarrow> nat \<Rightarrow> error + jsnum list list" where
  "copyEntries src dst rows cols =
     for_each [0..<rows]
       (\<lambda>r. for_each [0..<cols]
          (\<lambda>c d. bindE (rowget d r) (\<lambda>drow.
                  bindE (rowget src r) (\<lambda>srow. Inr (d[r := aset drow c (aget srow c)])))))
       dst"

definition copy :: "NeuralNetwork \<Rightarrow> rng \<Rightarrow> error + (NeuralNetwork \<times> rng)" where
  "copy net g =
     (let (new, g1) = constructor (inputSize net) (hiddenSize net) (outputSize net) g
      in bindE (copyEntries (weightsIH net) (weightsIH new) (inputSize net) (hiddenSize net))
           (\<lambda>wIH.
         bindE (copyEntries (weightsHO net) (weightsHO new) (hiddenSize net) (outputSize net))
           (\<lambda>wHO.
           Inr (new\<lparr>weightsIH := wIH, weightsHO := wHO,
                    biasH := biasH net, biasO := biasO net\<rparr>, g1))))"

text \<open>
  \<^verbatim>\<open>toJSON\<close> and \<^verbatim>\<open>fromJSON\<close>. The JSON text is modelled by what it holds: the four
  arrays, each entry a number or \<^verbatim>\<open>null\<close> (\<open>None\<close>). \<^verbatim>\<open>JSON.stringify\<close> writes \<open>NaN\<close>, holes
  and \<^verbatim>\<open>null\<close> as \<^verbatim>\<open>null\<close>; \<^verbatim>\<open>JSON.parse\<close> gives a \<^verbatim>\<open>null\<close> entry back as \<^verbatim>\<open>null\<close>, and the
  import stores it as it is. The decimal text of a number is the runtime's: the language
  guarantees that a finite number is read back as the number written, and the model takes
  this for granted by writing a number as itself. A text that does not parse, or that
  holds other shapes, is outside the model.
\<close>

record payload =
  p_weightsIH :: "real option list list"
  p_weightsHO :: "real option list list"
  p_biasH :: "real option list"
  p_biasO :: "real option list"

fun stringify_num :: "jsnum \<Rightarrow> real option" where
  "stringify_num (Num r) = Some r"
| "stringify_num NaN = None"
| "stringify_num Null = None"

fun parse_num :: "real option \<Rightarrow> jsnum" where
  "parse_num (Some r) = Num r"
| "parse_num None = Null"

definition toJSON :: "NeuralNetwork \<Rightarrow> payload" where
  "toJSON net =
     \<lparr>p_weightsIH = map (map stringify_num) (weightsIH net),
      p_weightsHO = map (map stringify_num) (weightsHO net),
      p_biasH = map stringify_num (biasH net),
      p_biasO = map stringify_num (biasO net)\<rparr>"

definition fromJSON :: "NeuralNetwork \<Rightarrow> payload \<Rightarrow> NeuralNetwork" where
  "fromJSON net json =
     net\<lparr>weightsIH := map (map parse_num) (p_weightsIH json),
         weightsHO := map (map parse_num) (p_weightsHO json),
         biasH := map parse_num (p_biasH json),
         biasO := map parse_num (p_biasO json)\<rparr>"

section \<open>The forward pass in binary64\<close>

text \<open>
  The numbers of the program are IEEE 754 binary64 doubles: every arithmetic operation
  returns the double nearest to the exact result, a tie going to the even significand,
  and a result beyond the largest double is an infinity. Where a property depends on
  this rounding, the forward pass is read with it: \<open>Fin\<close> is a finite double, \<open>NotNum\<close> is
  \<open>NaN\<close>. The sign of zero is not modelled. The numbers held by the arrays are taken to
  be doubles already.
\<close>

datatype f64 = Fin real | PosInf | NegInf | NotNum

text \<open>The integer nearest to \<open>y\<close>, the even one of the two when \<open>y\<close> is halfway.\<close>

definition rne :: "real \<Rightarrow> int" where
  "rne y =
     (let f = \<lfloor>y\<rfloor>; d = y - real_of_int f
      in if d < 1 / 2 then f else if 1 / 2 < d then f + 1 else if even f then f else f + 1)"

text \<open>
  A double has 52 fraction bits. Its exponent is that of the number being rounded, but
  not below \<open>-1022\<close>: the doubles under \<open>2 powr (-1022)\<close> are the subnormal ones, equally
  spaced. \<open>ulp64 a\<close> is the distance between the doubles around \<open>a > 0\<close>, and \<open>nearest64 a\<close>
  the nearest of them, the exponent being unbounded above.
\<close>

definition prec64 :: int where
  "prec64 = 52"

definition emin64 :: int where
  "emin64 = - 1022"

definition exponent64 :: "real \<Rightarrow> int" where
  "exponent64 a = max \<lfloor>log 2 a\<rfloor> emin64"

definition ulp64 :: "real \<Rightarrow> real" where
  "ulp64 a = 2 powr real_of_int (exponent64 a - prec64)"

definition nearest64 :: "real \<Rightarrow> real" where
  "nearest64 a = real_of_int (rne (a / ulp64 a)) * ulp64 a"

text \<open>
  The double an exact result \<open>x\<close> is rounded to: an infinity when the nearest value has
  reached \<open>2 powr 1024\<close>.
\<close>

definition round64 :: "real \<Rightarrow> f64" where
  "round64 x =
     (if x = 0 then Fin 0
      else if 2 powr 1024 \<le> nearest64 \<bar>x\<bar> then (if 0 < x then PosInf else NegInf)
      else Fin (if 0 < x then nearest64 \<bar>x\<bar> else - nearest64 \<bar>x\<bar>))"


text \<open>The double a slot of a \<^verbatim>\<open>number[]\<close> is read as: \<^verbatim>\<open>null\<close> as \<open>0\<close>.\<close>

fun to_f64 :: "jsnum \<Rightarrow> f64" where
  "to_f64 (Num r) = Fin r"
| "to_f64 Null = Fin 0"
| "to_f64 NaN = NotNum"

text \<open>
  \<^verbatim>\<open>a + b\<close>, \<^verbatim>\<open>a * b\<close> and \<^verbatim>\<open>a / b\<close> on doubles. A number over zero is an infinity whose sign
  is taken as if the zero were positive.
\<close>

fun fadd :: "f64 \<Rightarrow> f64 \<Rightarrow> f64" where
  "fadd (Fin a) (Fin b) = round64 (a + b)"
| "fadd NotNum y = NotNum"
| "fadd x NotNum = NotNum"
| "fadd PosInf NegInf = NotNum"
| "fadd NegInf PosInf = NotNum"
| "fadd PosInf y = PosInf"
| "fadd x PosInf = PosInf"
| "fadd NegInf y = NegInf"
| "fadd x NegInf = NegInf"

fun fmul :: "f64 \<Rightarrow> f64 \<Rightarrow> f64" where
  "fmul (Fin a) (Fin b) = round64 (a * b)"
| "fmul NotNum y = NotNum"
| "fmul x NotNum = NotNum"
| "fmul (Fin a) PosInf = (if a = 0 then NotNum else if 0 < a then PosInf else NegInf)"
| "fmul (Fin a) NegInf = (if a = 0 then NotNum else if 0 < a then NegInf else PosInf)"
| "fmul PosInf (Fin b) = (if b = 0 then NotNum else if 0 < b then PosInf else NegInf)"
| "fmul NegInf (Fin b) = (if b = 0 then NotNum else if 0 < b then NegInf else PosInf)"
| "fmul PosInf PosInf = PosInf"
| "fmul NegInf NegInf = PosInf"
| "fmul PosInf NegInf = NegInf"
| "fmul NegInf PosInf = NegInf"

fun fdiv :: "f64 \<Rightarrow> f64 \<Rightarrow> f64" where
  "fdiv (Fin a) (Fin b) =
     (if b = 0 then (if a = 0 then NotNum else if 0 < a then PosInf else NegInf)
      else round64 (a / b))"
| "fdiv NotNum y = NotNum"
| "fdiv x NotNum = NotNum"
| "fdiv (Fin a) PosInf = Fin 0"
| "fdiv (Fin a) NegInf = Fin 0"
| "fdiv PosInf (Fin b) = (if 0 \<le> b then PosInf else NegInf)"
| "fdiv NegInf (Fin b) = (if 0 \<le> b then NegInf else PosInf)"
| "fdiv x y = NotNum"

fun fneg :: "f64 \<Rightarrow> f64" where
  "fneg (Fin a) = Fin (- a)"
| "fneg PosInf = NegInf"
| "fneg NegInf = PosInf"
| "fneg NotNum = NotNum"

text \<open>
  \<^verbatim>\<open>Math.exp\<close>, taken as the exponential rounded to the nearest double. (An engine is only
  required to approximate it; the results below use only that its value is a positive
  double at most twice the exact one.)
\<close>

fun fexp :: "f64 \<Rightarrow> f64" where
  "fexp (Fin a) = round64 (exp a)"
| "fexp PosInf = PosInf"
| "fexp NegInf = Fin 0"
| "fexp NotNum = NotNum"

text \<open>\<^verbatim>\<open>Math.max\<close> and \<^verbatim>\<open>Math.min\<close>: \<open>NaN\<close> as soon as one argument is.\<close>

fun fmax :: "f64 \<Rightarrow> f64 \<Rightarrow> f64" where
  "fmax (Fin a) (Fin b) = Fin (max a b)"
| "fmax NotNum y = NotNum"
| "fmax x NotNum = NotNum"
| "fmax PosInf y = PosInf"
| "fmax x PosInf = PosInf"
| "fmax NegInf y = y"
| "fmax x NegInf = x"

fun fmin :: "f64 \<Rightarrow> f64 \<Rightarrow> f64" where
  "fmin (Fin a) (Fin b) = Fin (min a b)"
| "fmin NotNum y = NotNum"
| "fmin x NotNum = NotNum"
| "fmin NegInf y = NegInf"
| "fmin x NegInf = NegInf"
| "fmin PosInf y = y"
| "fmin x PosInf = x"

text \<open>Reading and writing the arrays of doubles the forward pass builds.\<close>

definition aget64 :: "f64 list \<Rightarrow> nat \<Rightarrow> f64" where
  "aget64 xs i = (if i < length xs then xs ! i else NotNum)"

definition aset64 :: "f64 list \<Rightarrow> nat \<Rightarrow> f64 \<Rightarrow> f64 list" where
  "aset64 xs i v =
     (if i < length xs then xs[i := v] else xs @ replicate (i - length xs) NotNum @ [v])"

text \<open>
  \<^verbatim>\<open>sigmoid\<close> and \<^verbatim>\<open>forwardPass\<close> once more, loop by loop as above, every operation now
  rounded. The result is the output vector; the caches, which receive the input, the
  hidden vector and the output, are left out.
\<close>

definition sigmoid64 :: "f64 \<Rightarrow> f64" where
  "sigmoid64 x =
     fdiv (Fin 1) (fadd (Fin 1) (fexp (fneg (fmax (Fin (- 500)) (fmin (Fin 500) x)))))"

definition hiddenSum64 :: "NeuralNetwork \<Rightarrow> jsnum list \<Rightarrow> nat \<Rightarrow> error + f64" where
  "hiddenSum64 net inputs h =
     for_each [0..<inputSize net]
       (\<lambda>i sum. bindE (rowget (weightsIH net) i)
          (\<lambda>row. Inr (fadd sum (fmul (to_f64 (aget inputs i)) (to_f64 (aget row h))))))
       (to_f64 (aget (biasH net) h))"

definition hiddenLayer64 :: "NeuralNetwork \<Rightarrow> jsnum list \<Rightarrow> error + f64 list" where
  "hiddenLayer64 net inputs =
     for_each [0..<hiddenSize net]
       (\<lambda>h hidden. bindE (hiddenSum64 net inputs h)
          (\<lambda>sum. Inr (aset64 hidden h (sigmoid64 sum))))
       []"

definition outputSum64 :: "NeuralNetwork \<Rightarrow> f64 list \<Rightarrow> nat \<Rightarrow> error + f64" where
  "outputSum64 net hidden o' =
     for_each [0..<hiddenSize net]
       (\<lambda>h sum. bindE (rowget (weightsHO net) h)
          (\<lambda>row. Inr (fadd sum (fmul (aget64 hidden h) (to_f64 (aget row o'))))))
       (to_f64 (aget (biasO net) o'))"

definition outputLayer64 :: "NeuralNetwork \<Rightarrow> f64 list \<Rightarrow> error + f64 list" where
  "outputLayer64 net hidden =
     for_each [0..<outputSize net]
       (\<lambda>o' output. bindE (outputSum64 net hidden o')
          (\<lambda>sum. Inr (aset64 output o' (sigmoid64 sum))))
       []"

definition forwardPass64 :: "NeuralNetwork \<Rightarrow> jsnum list \<Rightarrow> error + f64 list" where
  "forwardPass64 net inputs =
     (if length inputs \<noteq> inputSize net
      then Inl (DimensionError (inputSize net) (length inputs))
      else bindE (hiddenLayer64 net inputs) (\<lambda>hidden.
           bindE (outputLayer64 net hidden) (\<lambda>output. Inr output)))"

section \<open>Trainer\<close>

record sample =
  inputs :: "jsnum list"
  target :: "jsnum list"

record trainingStats =
  totalSamples :: nat
  currentLoss :: jsnum
  trainedEpochs :: nat

text \<open>
  The trainer holds the network it trains. The observer \<^verbatim>\<open>onStatsUpdate\<close> is a callback
  of the user interface; \<^verbatim>\<open>updateStats\<close> only calls it, and is left out.
\<close>

record Trainer =
  nn :: NeuralNetwork
  trainingData :: "sample list"
  isTraining :: bool
  trainingStats :: trainingStats

definition maxSamples :: nat where
  "maxSamples = 10000"

definition batchSize :: nat where
  "batchSize = 32"

definition newTrainer :: "NeuralNetwork \<Rightarrow> Trainer" where
  "newTrainer neuralNetwork =
     \<lparr>nn = neuralNetwork, trainingData = [], isTraining = False,
      trainingStats = \<lparr>totalSamples = 0, currentLoss = Num 0, trainedEpochs = 0\<rparr>\<rparr>"

definition addSample :: "Trainer \<Rightarrow> gameState option \<Rightarrow> jsnum \<Rightarrow> error + Trainer" where
  "addSample t gs optimalAction =
     (case gs of
        None \<Rightarrow> Inl InvalidGameState
      | Some g \<Rightarrow>
          let smp = \<lparr>inputs = [birdY g, birdVelocity g, pipeDistance g, pipeGapY g],
                     target = [optimalAction]\<rparr>;
              pushed = trainingData t @ [smp];
              kept = (if length pushed > maxSamples then tl pushed else pushed)
          in Inr (t\<lparr>trainingData := kept,
                    trainingStats := (trainingStats t)\<lparr>totalSamples := length kept\<rparr>\<rparr>))"

definition calculateOptimalAction :: "gameState option \<Rightarrow> error + jsnum" where
  "calculateOptimalAction gs =
     (case gs of
        None \<Rightarrow> Inl InvalidGameState
      | Some g \<Rightarrow>
          let velocityFactor = jmul (jsub (birdVelocity g) (Num 0.5)) (Num 0.1)
          in Inr (if jgt (birdY g) (jsub (pipeGapY g) velocityFactor) then Num 1 else Num 0))"

definition collectFromGameState :: "Trainer \<Rightarrow> gameState option \<Rightarrow> error + Trainer" where
  "collectFromGameState t gs =
     bindE (calculateOptimalAction gs) (\<lambda>optimalAction. addSample t gs optimalAction)"

definition reset :: "Trainer \<Rightarrow> Trainer" where
  "reset t =
     t\<lparr>trainingData := [],
       trainingStats := \<lparr>totalSamples = 0, currentLoss = Num 0, trainedEpochs = 0\<rparr>\<rparr>"

text \<open>
  \<^verbatim>\<open>shuffle\<close> (Fisher-Yates): \<open>i\<close> runs from \<open>length - 1\<close> down to \<open>1\<close>, and slot \<open>i\<close> is
  swapped with slot \<open>j = floor (random () * (i + 1))\<close>, which is at most \<open>i\<close> since the
  draw is below \<open>1\<close>.
\<close>

fun shuffleLoop :: "nat \<Rightarrow> 'a list \<Rightarrow> rng \<Rightarrow> 'a list \<times> rng" where
  "shuffleLoop 0 array g = (array, g)"
| "shuffleLoop (Suc k) array g =
     (let i = Suc k;
          (r, g1) = random g;
          j = nat \<lfloor>r * real (i + 1)\<rfloor>
      in shuffleLoop k (array[i := array ! j, j := array ! i]) g1)"

definition shuffle :: "'a list \<Rightarrow> rng \<Rightarrow> 'a list \<times> rng" where
  "shuffle array g = shuffleLoop (length array - 1) array g"

text \<open>
  \<^verbatim>\<open>Trainer.train\<close>. The state of its loops is the network, \<^verbatim>\<open>totalLoss\<close> and
  \<^verbatim>\<open>samplesTrained\<close>. \<open>trainBatch\<close> is the loop over one batch, \<open>trainBatches\<close> the loop
  \<^verbatim>\<open>for (i = 0; i < shuffled.length; i += batchSize)\<close> from its index \<open>i\<close> on,
  \<open>trainEpochs\<close> the loop over the epochs.
\<close>

type_synonym trainState = "NeuralNetwork \<times> jsnum \<times> nat"

definition trainBatch :: "sample list \<Rightarrow> jsnum \<Rightarrow> trainState \<Rightarrow> error + trainState" where
  "trainBatch batch learningRate st =
     for_each batch
       (\<lambda>smp (net, totalLoss, samplesTrained).
          bindE (train net (inputs smp) (target smp) learningRate)
            (\<lambda>(loss, net'). Inr (net', jadd totalLoss loss, Suc samplesTrained)))
       st"

function trainBatches ::
  "sample list \<Rightarrow> jsnum \<Rightarrow> nat \<Rightarrow> trainState \<Rightarrow> error + trainState" where
  "trainBatches shuffled learningRate i st =
     (if i < length shuffled
      then (case trainBatch (take batchSize (drop i shuffled)) learningRate st of
              Inl e \<Rightarrow> Inl e
            | Inr st' \<Rightarrow> trainBatches shuffled learningRate (i + batchSize) st')
      else Inr st)"
  by pat_completeness auto
termination
  by (relation "measure (\<lambda>(shuffled, learningRate, i, st). length shuffled - i)")
     (auto simp: batchSize_def)

definition trainEpochs ::
  "Trainer \<Rightarrow> jsnum \<Rightarrow> nat \<Rightarrow> rng \<Rightarrow> error + (trainState \<times> rng)" where
  "trainEpochs t learningRate epochs g =
     for_each [0..<epochs]
       (\<lambda>epoch (st, g0).
          let (shuffled, g1) = shuffle (trainingData t) g0
          in bindE (trainBatches shuffled learningRate 0 st) (\<lambda>st'. Inr (st', g1)))
       ((nn t, Num 0, 0), g)"

definition trainer_train ::
  "Trainer \<Rightarrow> jsnum \<Rightarrow> nat \<Rightarrow> rng \<Rightarrow> error + (jsnum \<times> Trainer \<times> rng)" where
  "trainer_train t learningRate epochs g =
     (if length (trainingData t) < batchSize then Inr (Num 0, t, g)
      else bindE (trainEpochs t learningRate epochs g)
        (\<lambda>((net, totalLoss, samplesTrained), g1).
           let loss = jdiv totalLoss (Num (real samplesTrained))
           in Inr (loss,
                   t\<lparr>nn := net,
                     trainingStats := (trainingStats t)
                       \<lparr>currentLoss := loss,
                        trainedEpochs := trainedEpochs (trainingStats t) + epochs\<rparr>\<rparr>,
                   g1)))"

text \<open>
  \<^verbatim>\<open>startTraining\<close> sets the flag and runs the first tick; every later animation frame
  runs \<open>trainTick\<close> again. A tick trains for 10 epochs unless the flag has been cleared.
\<close>

definition trainTick :: "Trainer \<Rightarrow> jsnum \<Rightarrow> rng \<Rightarrow> error + (Trainer \<times> rng)" where
  "trainTick t learningRate g =
     (if \<not> isTraining t then Inr (t, g)
      else bindE (trainer_train t learningRate 10 g) (\<lambda>(loss, t', g1). Inr (t', g1)))"

definition startTraining :: "Trainer \<Rightarrow> jsnum \<Rightarrow> rng \<Rightarrow> error + (Trainer \<times> rng)" where
  "startTraining t learningRate g = trainTick (t\<lparr>isTraining := True\<rparr>) learningRate g"

definition stopTraining :: "Trainer \<Rightarrow> Trainer" where
  "stopTraining t = t\<lparr>isTraining := False\<rparr>"

text \<open>The operations a caller has on a trainer, and a run of them that stops at the first throw.\<close>

datatype trainer_op =
    AddSample "gameState option" jsnum
  | CollectFromGameState "gameState option"
  | Train jsnum nat
  | StartTraining jsnum
  | TrainTick jsnum
  | StopTraining
  | Reset

fun apply_op :: "Trainer \<times> rng \<Rightarrow> trainer_op \<Rightarrow> error + (Trainer \<times> rng)" where
  "apply_op (t, g) (AddSample gs a) = bindE (addSample t gs a) (\<lambda>t'. Inr (t', g))"
| "apply_op (t, g) (CollectFromGameState gs) =
     bindE (collectFromGameState t gs) (\<lambda>t'. Inr (t', g))"
| "apply_op (t, g) (Train lr epochs) =
     bindE (trainer_train t lr epochs g) (\<lambda>(loss, t', g1). Inr (t', g1))"
| "apply_op (t, g) (StartTraining lr) = startTraining t lr g"
| "apply_op (t, g) (TrainTick lr) = trainTick t lr g"
| "apply_op (t, g) StopTraining = Inr (stopTraining t, g)"
| "apply_op (t, g) Reset = Inr (reset t, g)"

fun run_ops :: "Trainer \<times> rng \<Rightarrow> trainer_op list \<Rightarrow> error + (Trainer \<times> rng)" where
  "run_ops s [] = Inr s"
| "run_ops s (x # ops) = bindE (apply_op s x) (\<lambda>s'. run_ops s' ops)"

section \<open>The arrays of a network as objects of a store\<close>

text \<open>
  Where it matters which array object a field refers to, the arrays live in a store: a
  list of cells, the address of a cell being its position, and an allocation appending a
  cell. A \<^verbatim>\<open>number[]\<close> is a cell of numbers, a \<^verbatim>\<open>number[][]\<close> a cell of the addresses of
  its rows. A network object holds its sizes and the addresses of its four arrays. (The
  caches, \<^verbatim>\<open>null\<close> in a new network, are left out.) A read through an address that is not
  allocated, or of the wrong kind, does not occur in the program and reads as empty.
\<close>

type_synonym ref = nat

datatype cell = NumArray "jsnum list" | RowArray "ref list"

type_synonym heap = "cell list"

record NetworkObject =
  o_inputSize :: nat
  o_hiddenSize :: nat
  o_outputSize :: nat
  o_weightsIH :: ref
  o_weightsHO :: ref
  o_biasH :: ref
  o_biasO :: ref

definition alloc :: "heap \<Rightarrow> cell \<Rightarrow> ref \<times> heap" where
  "alloc h c = (length h, h @ [c])"

definition heap_nums :: "heap \<Rightarrow> ref \<Rightarrow> jsnum list" where
  "heap_nums h r =
     (if r < length h then (case h ! r of NumArray xs \<Rightarrow> xs | RowArray rs \<Rightarrow> []) else [])"

definition heap_rows :: "heap \<Rightarrow> ref \<Rightarrow> ref list" where
  "heap_rows h w =
     (if w < length h then (case h ! w of RowArray rs \<Rightarrow> rs | NumArray xs \<Rightarrow> []) else [])"

text \<open>\<^verbatim>\<open>m[i]\<close> for a matrix \<open>m\<close>, to be indexed further: a missing row throws.\<close>

definition heap_row :: "heap \<Rightarrow> ref \<Rightarrow> nat \<Rightarrow> error + ref" where
  "heap_row h w i = (if i < length (heap_rows h w) then Inr (heap_rows h w ! i) else Inl TypeError)"

text \<open>
  \<^verbatim>\<open>initializeWeights\<close> in the store: the outer array is allocated first and empty; each
  row is allocated with its draws and appended to the outer array.
\<close>

fun heap_initRows :: "nat \<Rightarrow> nat \<Rightarrow> ref \<Rightarrow> rng \<Rightarrow> heap \<Rightarrow> rng \<times> heap" where
  "heap_initRows 0 cols w g h = (g, h)"
| "heap_initRows (Suc rows) cols w g h =
     (let (row, g1) = initializeRow cols g;
          (r, h1) = alloc h (NumArray row);
          h2 = h1[w := RowArray (heap_rows h1 w @ [r])]
      in heap_initRows rows cols w g1 h2)"

definition heap_initializeWeights :: "nat \<Rightarrow> nat \<Rightarrow> rng \<Rightarrow> heap \<Rightarrow> ref \<times> rng \<times> heap" where
  "heap_initializeWeights rows cols g h =
     (let (w, h1) = alloc h (RowArray []);
          (g1, h2) = heap_initRows rows cols w g h1
      in (w, g1, h2))"

definition heap_constructor ::
  "nat \<Rightarrow> nat \<Rightarrow> nat \<Rightarrow> rng \<Rightarrow> heap \<Rightarrow> NetworkObject \<times> rng \<times> heap" where
  "heap_constructor inSize hidSize outSize g h =
     (let (wIH, g1, h1) = heap_initializeWeights inSize hidSize g h;
          (wHO, g2, h2) = heap_initializeWeights hidSize outSize g1 h1;
          (bH, h3) = alloc h2 (NumArray (replicate hidSize (Num 0)));
          (bO, h4) = alloc h3 (NumArray (replicate outSize (Num 0)))
      in (\<lparr>o_inputSize = inSize, o_hiddenSize = hidSize, o_outputSize = outSize,
           o_weightsIH = wIH, o_weightsHO = wHO, o_biasH = bH, o_biasO = bO\<rparr>, g2, h4))"

text \<open>\<^verbatim>\<open>dst[r][c] = src[r][c]\<close> in the store: the row object of \<open>dst\<close> is written in place.\<close>

definition heap_copyEntry :: "ref \<Rightarrow> ref \<Rightarrow> nat \<Rightarrow> nat \<Rightarrow> heap \<Rightarrow> error + heap" where
  "heap_copyEntry src dst r c h =
     bindE (heap_row h dst r) (\<lambda>drow.
     bindE (heap_row h src r) (\<lambda>srow.
       Inr (h[drow := NumArray (aset (heap_nums h drow) c (aget (heap_nums h srow) c))])))"

definition heap_copyEntries :: "ref \<Rightarrow> ref \<Rightarrow> nat \<Rightarrow> nat \<Rightarrow> heap \<Rightarrow> error + heap" where
  "heap_copyEntries src dst rows cols h =
     for_each [0..<rows] (\<lambda>r. for_each [0..<cols] (\<lambda>c. heap_copyEntry src dst r c)) h"

text \<open>\<^verbatim>\<open>copy\<close> in the store; the spread \<^verbatim>\<open>[...this.biasH]\<close> allocates a new array.\<close>

definition heap_copy :: "NetworkObject \<Rightarrow> rng \<Rightarrow> heap \<Rightarrow> error + (NetworkObject \<times> rng \<times> heap)" where
  "heap_copy this g h =
     (let (new, g1, h1) =
            heap_constructor (o_inputSize this) (o_hiddenSize this) (o_outputSize this) g h
      in bindE (heap_copyEntries (o_weightsIH this) (o_weightsIH new)
                  (o_inputSize this) (o_hiddenSize this) h1) (\<lambda>h2.
         bindE (heap_copyEntries (o_weightsHO this) (o_weightsHO new)
                  (o_hiddenSize this) (o_outputSize this) h2) (\<lambda>h3.
         let (bH, h4) = alloc h3 (NumArray (heap_nums h3 (o_biasH this)));
             (bO, h5) = alloc h4 (NumArray (heap_nums h4 (o_biasO this)))
         in Inr (new\<lparr>o_biasH := bH, o_biasO := bO\<rparr>, g1, h5))))"

text \<open>The network a network object stands for, and the cells it is made of.\<close>

definition heap_matrix :: "heap \<Rightarrow> ref \<Rightarrow> jsnum list list" where
  "heap_matrix h w = map (heap_nums h) (heap_rows h w)"

definition abs_network :: "heap \<Rightarrow> NetworkObject \<Rightarrow> NeuralNetwork" where
  "abs_network h ob =
     \<lparr>inputSize = o_inputSize ob, hiddenSize = o_hiddenSize ob, outputSize = o_outputSize ob,
      weightsIH = heap_matrix h (o_weightsIH ob), weightsHO = heap_matrix h (o_weightsHO ob),
      biasH = heap_nums h (o_biasH ob), biasO = heap_nums h (o_biasO ob),
      lastInputs = None, lastHidden = None, lastOutput = None\<rparr>"

definition cells_of :: "heap \<Rightarrow> NetworkObject \<Rightarrow> ref set" where
  "cells_of h ob =
     {o_weightsIH ob, o_weightsHO ob, o_biasH ob, o_biasO ob}
       \<union> set (heap_rows h (o_weightsIH ob)) \<union> set (heap_rows h (o_weightsHO ob))"

text \<open>Every cell of the object is allocated, and the two matrices are cells of rows.\<close>

fun is_rows :: "cell \<Rightarrow> bool" where
  "is_rows (RowArray rs) = True"
| "is_rows (NumArray xs) = False"

definition allocated :: "heap \<Rightarrow> NetworkObject \<Rightarrow> bool" where
  "allocated h ob =
     ((\<forall>a \<in> cells_of h ob. a < length h) \<and>
      is_rows (h ! o_weightsIH ob) \<and> is_rows (h ! o_weightsHO ob))"

section \<open>Well-formed networks and the closed forms of the specification\<close>

text \<open>
  The dimensions the constructor establishes: \<^verbatim>\<open>weightsIH\<close> is \<open>inputSize \<times> hiddenSize\<close>,
  \<^verbatim>\<open>weightsHO\<close> is \<open>hiddenSize \<times> outputSize\<close>, and the biases have one entry per unit.
\<close>

definition well_formed :: "NeuralNetwork \<Rightarrow> bool" where
  "well_formed net =
     (length (weightsIH net) = inputSize net \<and>
      (\<forall>row \<in> set (weightsIH net). length row = hiddenSize net) \<and>
      length (weightsHO net) = hiddenSize net \<and>
      (\<forall>row \<in> set (weightsHO net). length row = outputSize net) \<and>
      length (biasH net) = hiddenSize net \<and>
      length (biasO net) = outputSize net)"

text \<open>Every parameter is a real number (no \<open>NaN\<close>).\<close>

definition real_valued :: "NeuralNetwork \<Rightarrow> bool" where
  "real_valued net =
     ((\<forall>row \<in> set (weightsIH net). \<forall>x \<in> set row. is_num x) \<and>
      (\<forall>row \<in> set (weightsHO net). \<forall>x \<in> set row. is_num x) \<and>
      (\<forall>x \<in> set (biasH net). is_num x) \<and>
      (\<forall>x \<in> set (biasO net). is_num x))"

text \<open>No parameter is \<open>NaN\<close> (or a hole): every one is a real number or \<^verbatim>\<open>null\<close>.\<close>

definition NaN_free :: "NeuralNetwork \<Rightarrow> bool" where
  "NaN_free net =
     ((\<forall>row \<in> set (weightsIH net). \<forall>x \<in> set row. x \<noteq> NaN) \<and>
      (\<forall>row \<in> set (weightsHO net). \<forall>x \<in> set row. x \<noteq> NaN) \<and>
      (\<forall>x \<in> set (biasH net). x \<noteq> NaN) \<and>
      (\<forall>x \<in> set (biasO net). x \<noteq> NaN))"

text \<open>What an entry is after an export and an import: \<open>NaN\<close> has become \<^verbatim>\<open>null\<close>.\<close>

fun reread :: "jsnum \<Rightarrow> jsnum" where
  "reread (Num r) = Num r"
| "reread NaN = Null"
| "reread Null = Null"

text \<open>
  The specification's \<open>b + \<Sum>\<^sub>i f i\<close> over \<open>i < n\<close>, added from the left as the loops do.
\<close>

definition jsum :: "jsnum \<Rightarrow> (nat \<Rightarrow> jsnum) \<Rightarrow> nat \<Rightarrow> jsnum" where
  "jsum b f n = foldl (\<lambda>s i. jadd s (f i)) b [0..<n]"

text \<open>
  The activations as the specification gives them: hidden unit \<open>h\<close> is the sigmoid of its
  bias plus the weighted inputs, output unit \<open>k\<close> the sigmoid of its bias plus the weighted
  hidden activations.
\<close>

definition spec_hidden :: "NeuralNetwork \<Rightarrow> jsnum list \<Rightarrow> jsnum list" where
  "spec_hidden net xs =
     map (\<lambda>h. sigmoid (jsum (aget (biasH net) h)
                 (\<lambda>i. jmul (aget xs i) (aget (weightsIH net ! i) h)) (inputSize net)))
       [0..<hiddenSize net]"

definition spec_output :: "NeuralNetwork \<Rightarrow> jsnum list \<Rightarrow> jsnum list" where
  "spec_output net hid =
     map (\<lambda>k. sigmoid (jsum (aget (biasO net) k)
                 (\<lambda>h. jmul (aget hid h) (aget (weightsHO net ! h) k)) (hiddenSize net)))
       [0..<outputSize net]"

text \<open>The same closed forms in binary64.\<close>

definition fsum64 :: "f64 \<Rightarrow> (nat \<Rightarrow> f64) \<Rightarrow> nat \<Rightarrow> f64" where
  "fsum64 b f n = foldl (\<lambda>s i. fadd s (f i)) b [0..<n]"

definition spec_hidden64 :: "NeuralNetwork \<Rightarrow> jsnum list \<Rightarrow> f64 list" where
  "spec_hidden64 net xs =
     map (\<lambda>h. sigmoid64 (fsum64 (to_f64 (aget (biasH net) h))
                 (\<lambda>i. fmul (to_f64 (aget xs i)) (to_f64 (aget (weightsIH net ! i) h)))
                 (inputSize net)))
       [0..<hiddenSize net]"

definition spec_output64 :: "NeuralNetwork \<Rightarrow> f64 list \<Rightarrow> f64 list" where
  "spec_output64 net hid =
     map (\<lambda>k. sigmoid64 (fsum64 (to_f64 (aget (biasO net) k))
                 (\<lambda>h. fmul (aget64 hid h) (to_f64 (aget (weightsHO net ! h) k)))
                 (hiddenSize net)))
       [0..<outputSize net]"

text \<open>
  One training step as the specification gives it. The output error of unit \<open>k\<close> is
  \<open>(target - output) * output * (1 - output)\<close>; the hidden error of unit \<open>h\<close> is the sum
  over \<open>k\<close> of \<open>outputError k * weightsHO h k\<close> (with the weights before the update) times
  \<open>hidden * (1 - hidden)\<close>; every parameter receives its additive update; the result is
  the sum of the squared errors over \<^verbatim>\<open>outputSize\<close>.
\<close>

definition spec_outputErrors :: "jsnum list \<Rightarrow> jsnum list \<Rightarrow> nat \<Rightarrow> jsnum list" where
  "spec_outputErrors targets out n =
     map (\<lambda>k. jmul (jsub (aget targets k) (aget out k)) (sigmoidDerivative (aget out k))) [0..<n]"

definition spec_squaredError :: "jsnum list \<Rightarrow> jsnum list \<Rightarrow> nat \<Rightarrow> jsnum" where
  "spec_squaredError targets out n =
     jsum (Num 0) (\<lambda>k. jmul (jsub (aget targets k) (aget out k))
                           (jsub (aget targets k) (aget out k))) n"

definition spec_hiddenErrors :: "NeuralNetwork \<Rightarrow> jsnum list \<Rightarrow> jsnum list \<Rightarrow> jsnum list" where
  "spec_hiddenErrors net oe hid =
     map (\<lambda>h. jmul (jsum (Num 0) (\<lambda>k. jmul (aget oe k) (aget (weightsHO net ! h) k)) (outputSize net))
                 (sigmoidDerivative (aget hid h)))
       [0..<hiddenSize net]"

definition spec_train ::
  "NeuralNetwork \<Rightarrow> jsnum list \<Rightarrow> jsnum list \<Rightarrow> jsnum \<Rightarrow> jsnum \<times> NeuralNetwork" where
  "spec_train net xs targets lr =
     (let hid = spec_hidden net xs;
          out = spec_output net hid;
          oe = spec_outputErrors targets out (outputSize net);
          he = spec_hiddenErrors net oe hid
      in (jdiv (spec_squaredError targets out (outputSize net)) (Num (real (outputSize net))),
          net\<lparr>weightsIH :=
                 map (\<lambda>i. map (\<lambda>h. jadd (weightsIH net ! i ! h)
                                      (jmul (jmul lr (aget he h)) (aget xs i)))
                            [0..<hiddenSize net])
                   [0..<inputSize net],
              weightsHO :=
                 map (\<lambda>h. map (\<lambda>k. jadd (weightsHO net ! h ! k)
                                      (jmul (jmul lr (aget oe k)) (aget hid h)))
                            [0..<outputSize net])
                   [0..<hiddenSize net],
              biasH := map (\<lambda>h. jadd (biasH net ! h) (jmul lr (aget he h))) [0..<hiddenSize net],
              biasO := map (\<lambda>k. jadd (biasO net ! k) (jmul lr (aget oe k))) [0..<outputSize net],
              lastInputs := Some xs, lastHidden := Some hid, lastOutput := Some out\<rparr>))"

text \<open>
  The schedule of \<^verbatim>\<open>Trainer.train\<close> as the specification gives it. \<open>train_all\<close> calls
  \<^verbatim>\<open>train\<close> once per sample of a list, in order, and collects the losses; \<open>epoch_orders\<close>
  is the list of the shuffled copies of the buffer, one per epoch; \<open>batches_from\<close> cuts a
  list into the slices \<^verbatim>\<open>slice(i, i + batchSize)\<close> for \<open>i\<close> stepping by \<^verbatim>\<open>batchSize\<close>.
\<close>

fun train_all ::
  "NeuralNetwork \<Rightarrow> jsnum \<Rightarrow> sample list \<Rightarrow> error + (jsnum list \<times> NeuralNetwork)" where
  "train_all net lr [] = Inr ([], net)"
| "train_all net lr (s # ss) =
     bindE (train net (inputs s) (target s) lr) (\<lambda>(loss, net1).
     bindE (train_all net1 lr ss) (\<lambda>(losses, net2). Inr (loss # losses, net2)))"

fun epoch_orders :: "sample list \<Rightarrow> nat \<Rightarrow> rng \<Rightarrow> sample list list \<times> rng" where
  "epoch_orders buf 0 g = ([], g)"
| "epoch_orders buf (Suc n) g =
     (let (before, g1) = epoch_orders buf n g; (shuffled, g2) = shuffle buf g1
      in (before @ [shuffled], g2))"

function batches_from :: "nat \<Rightarrow> 'a list \<Rightarrow> 'a list list" where
  "batches_from i xs =
     (if i < length xs then take batchSize (drop i xs) # batches_from (i + batchSize) xs else [])"
  by pat_completeness auto
termination
  by (relation "measure (\<lambda>(i, xs). length xs - i)") (auto simp: batchSize_def)

section \<open>Example values\<close>

text \<open>The network of the application, \<^verbatim>\<open>new NeuralNetwork(4, 8, 1)\<close>, with every weight at \<open>0\<close>.\<close>

definition zeroNet :: NeuralNetwork where
  "zeroNet =
     \<lparr>inputSize = 4, hiddenSize = 8, outputSize = 1,
      weightsIH = replicate 4 (replicate 8 (Num 0)),
      weightsHO = replicate 8 [Num 0],
      biasH = replicate 8 (Num 0), biasO = [Num 0],
      lastInputs = None, lastHidden = None, lastOutput = None\<rparr>"

definition zeroState :: gameState where
  "zeroState = \<lparr>birdY = Num 0, birdVelocity = Num 0, pipeDistance = Num 0, pipeGapY = Num 0\<rparr>"

definition zeroSample :: sample where
  "zeroSample = \<lparr>inputs = [Num 0, Num 0, Num 0, Num 0], target = [Num 1]\<rparr>"

text \<open>The network of the application with every weight at \<open>0\<close> and the output bias at \<open>64\<close>.\<close>

definition saturatedNet :: NeuralNetwork where
  "saturatedNet = zeroNet\<lparr>biasO := [Num 64]\<rparr>"

text \<open>A trainer whose buffer holds \<open>n\<close> samples.\<close>

definition filledTrainer :: "nat \<Rightarrow> Trainer" where
  "filledTrainer n = (newTrainer zeroNet)\<lparr>trainingData := replicate n zeroSample\<rparr>"

text \<open>A trainer whose buffer holds the \<open>n\<close> distinct samples numbered \<open>0\<close> to \<open>n - 1\<close>.\<close>

definition countSample :: "nat \<Rightarrow> sample" where
  "countSample i = \<lparr>inputs = [Num (real i), Num 0, Num 0, Num 0], target = [Num 1]\<rparr>"

definition countingTrainer :: "nat \<Rightarrow> Trainer" where
  "countingTrainer n = (newTrainer zeroNet)\<lparr>trainingData := map countSample [0..<n]\<rparr>"

text \<open>A store holding one network of sizes 1, 1, 1 with every parameter at \<open>0\<close>.\<close>

definition tinyHeap :: heap where
  "tinyHeap =
     [RowArray [1], NumArray [Num 0], RowArray [3], NumArray [Num 0],
      NumArray [Num 0], NumArray [Num 0]]"

definition tinyObject :: NetworkObject where
  "tinyObject =
     \<lparr>o_inputSize = 1, o_hiddenSize = 1, o_outputSize = 1,
      o_weightsIH = 0, o_weightsHO = 2, o_biasH = 4, o_biasO = 5\<rparr>"

section \<open>The arithmetic on numbers\<close>

lemma jadd_simps [simp]:
  "jadd (Num a) (Num b) = Num (a + b)"
  "jadd NaN y = NaN"
  "jadd x NaN = NaN"
  "jadd Null y = jadd (Num 0) y"
  "jadd x Null = jadd x (Num 0)"
  by (simp_all add: jadd_def split: option.splits)

lemma jsub_simps [simp]:
  "jsub (Num a) (Num b) = Num (a - b)"
  "jsub NaN y = NaN"
  "jsub x NaN = NaN"
  "jsub Null y = jsub (Num 0) y"
  "jsub x Null = jsub x (Num 0)"
  by (simp_all add: jsub_def split: option.splits)

lemma jmul_simps [simp]:
  "jmul (Num a) (Num b) = Num (a * b)"
  "jmul NaN y = NaN"
  "jmul x NaN = NaN"
  "jmul Null y = jmul (Num 0) y"
  "jmul x Null = jmul x (Num 0)"
  by (simp_all add: jmul_def split: option.splits)

lemma jdiv_simps [simp]:
  "jdiv (Num a) (Num b) = (if b = 0 then NaN else Num (a / b))"
  "jdiv NaN y = NaN"
  "jdiv x NaN = NaN"
  "jdiv Null y = jdiv (Num 0) y"
  "jdiv x Null = jdiv x (Num 0)"
  by (simp_all add: jdiv_def split: option.splits)

lemma jneg_simps [simp]:
  "jneg (Num a) = Num (- a)"
  "jneg NaN = NaN"
  "jneg Null = Num 0"
  by (simp_all add: jneg_def)

lemma jexp_simps [simp]:
  "jexp (Num a) = Num (exp a)"
  "jexp NaN = NaN"
  "jexp Null = Num 1"
  by (simp_all add: jexp_def)

lemma jmax_simps [simp]:
  "jmax (Num a) (Num b) = Num (max a b)"
  "jmax NaN y = NaN"
  "jmax x NaN = NaN"
  "jmax Null y = jmax (Num 0) y"
  "jmax x Null = jmax x (Num 0)"
  by (simp_all add: jmax_def split: option.splits)

lemma jmin_simps [simp]:
  "jmin (Num a) (Num b) = Num (min a b)"
  "jmin NaN y = NaN"
  "jmin x NaN = NaN"
  "jmin Null y = jmin (Num 0) y"
  "jmin x Null = jmin x (Num 0)"
  by (simp_all add: jmin_def split: option.splits)

lemma jgt_simps [simp]:
  "jgt (Num a) (Num b) = (a > b)"
  "jgt NaN y = False"
  "jgt x NaN = False"
  "jgt Null y = jgt (Num 0) y"
  "jgt x Null = jgt x (Num 0)"
  by (simp_all add: jgt_def split: option.splits)

section \<open>The error monad and the loops\<close>

lemma bindE_Inr [simp]: "bindE (Inr v) f = f v"
  by (simp add: bindE_def)

lemma bindE_Inl [simp]: "bindE (Inl e) f = Inl e"
  by (simp add: bindE_def)

lemma bindE_eq_Inr: "bindE m f = Inr y \<longleftrightarrow> (\<exists>v. m = Inr v \<and> f v = Inr y)"
  by (cases m) simp_all

lemma for_each_append:
  "for_each (xs @ ys) body s = bindE (for_each xs body s) (for_each ys body)"
  by (induction xs arbitrary: s) (auto simp: bindE_def split: sum.splits)

section \<open>The training buffer\<close>

lemma addSample_bounded:
  assumes "length (trainingData t) \<le> maxSamples" and "addSample t gs a = Inr t'"
  shows "length (trainingData t') \<le> maxSamples"
  using assms by (cases gs) (auto simp: addSample_def Let_def split: if_splits)

lemma trainer_train_data:
  "trainer_train t lr epochs g = Inr (loss, t', g') \<Longrightarrow> trainingData t' = trainingData t"
  by (auto simp: trainer_train_def bindE_eq_Inr Let_def split: if_splits prod.splits)

lemma trainTick_data:
  "trainTick t lr g = Inr (t', g') \<Longrightarrow> trainingData t' = trainingData t"
  by (auto simp: trainTick_def bindE_eq_Inr split: if_splits prod.splits dest: trainer_train_data)

lemma apply_op_bounded:
  assumes "length (trainingData t) \<le> maxSamples" and "apply_op (t, g) x = Inr (t', g')"
  shows "length (trainingData t') \<le> maxSamples"
proof (cases x)
  case (AddSample gs a)
  then show ?thesis using assms by (auto simp: bindE_eq_Inr dest: addSample_bounded)
next
  case (CollectFromGameState gs)
  then show ?thesis using assms
    by (auto simp: bindE_eq_Inr collectFromGameState_def dest: addSample_bounded)
next
  case (Train lr epochs)
  then show ?thesis using assms
    by (auto simp: bindE_eq_Inr split: prod.splits dest: trainer_train_data)
next
  case (StartTraining lr)
  then show ?thesis using assms trainTick_data [of "t\<lparr>isTraining := True\<rparr>" lr g t' g']
    by (simp add: startTraining_def)
next
  case (TrainTick lr)
  then show ?thesis using assms by (auto dest: trainTick_data)
next
  case StopTraining
  then show ?thesis using assms by (auto simp: stopTraining_def)
next
  case Reset
  then show ?thesis using assms by (auto simp: reset_def)
qed

lemma run_ops_bounded:
  "length (trainingData (fst s)) \<le> maxSamples \<Longrightarrow> run_ops s ops = Inr s' \<Longrightarrow>
   length (trainingData (fst s')) \<le> maxSamples"
proof (induction ops arbitrary: s)
  case Nil
  then show ?case by simp
next
  case (Cons x ops)
  obtain t g where s: "s = (t, g)" by (cases s)
  from Cons.prems(2) obtain s1 where a: "apply_op s x = Inr s1" and r: "run_ops s1 ops = Inr s'"
    by (auto simp: bindE_eq_Inr)
  obtain t1 g1 where s1: "s1 = (t1, g1)" by (cases s1)
  have "length (trainingData t1) \<le> maxSamples"
    using apply_op_bounded [of t g x t1 g1] Cons.prems(1) a s s1 by simp
  then show ?case using Cons.IH [of s1] r s1 by simp
qed

text \<open>
  Claim C3. On a buffer of at most 10000 samples, \<^verbatim>\<open>addSample\<close> with a game state
  succeeds and leaves the old buffer followed by the new sample, without its first
  (oldest) element exactly when the buffer was full; the order of the others is kept,
  the length stays at most 10000 and \<^verbatim>\<open>totalSamples\<close> is the new length. Every operation
  of the trainer keeps the bound, and so does every run of operations on a new trainer.
\<close>

theorem buffer_fifo_bounded:
  assumes "length (trainingData t) \<le> maxSamples"
  shows "(\<exists>t'. addSample t (Some gs) a = Inr t' \<and>
            trainingData t' =
              (if length (trainingData t) = maxSamples then tl (trainingData t) else trainingData t)
              @ [\<lparr>inputs = [birdY gs, birdVelocity gs, pipeDistance gs, pipeGapY gs],
                   target = [a]\<rparr>] \<and>
            length (trainingData t') \<le> 10000 \<and>
            totalSamples (trainingStats t') = length (trainingData t'))
       \<and> (\<forall>x g t' g'. apply_op (t, g) x = Inr (t', g') \<longrightarrow> length (trainingData t') \<le> 10000)
       \<and> (\<forall>net ops g t' g'. run_ops (newTrainer net, g) ops = Inr (t', g') \<longrightarrow>
             length (trainingData t') \<le> 10000)"
proof (intro conjI allI impI)
  show "\<exists>t'. addSample t (Some gs) a = Inr t' \<and>
            trainingData t' =
              (if length (trainingData t) = maxSamples then tl (trainingData t) else trainingData t)
              @ [\<lparr>inputs = [birdY gs, birdVelocity gs, pipeDistance gs, pipeGapY gs],
                   target = [a]\<rparr>] \<and>
            length (trainingData t') \<le> 10000 \<and>
            totalSamples (trainingStats t') = length (trainingData t')"
    using assms by (cases "trainingData t") (auto simp: addSample_def Let_def maxSamples_def)
next
  fix x g t' g' assume "apply_op (t, g) x = Inr (t', g')"
  then show "length (trainingData t') \<le> 10000"
    using apply_op_bounded [OF assms] by (simp add: maxSamples_def)
next
  fix net ops g t' g' assume "run_ops (newTrainer net, g) ops = Inr (t', g')"
  then show "length (trainingData t') \<le> 10000"
    using run_ops_bounded [of "(newTrainer net, g)" ops "(t', g')"]
    by (simp add: newTrainer_def maxSamples_def)
qed

theorem buffer_fifo_bounded_witness:
  "length (trainingData (filledTrainer 10000)) \<le> maxSamples \<and>
   (\<exists>t'. addSample (filledTrainer 10000) (Some zeroState) (Num 0) = Inr t' \<and>
      trainingData t' =
        replicate 9999 zeroSample @ [\<lparr>inputs = [Num 0, Num 0, Num 0, Num 0], target = [Num 0]\<rparr>] \<and>
      length (trainingData t') \<le> 10000)"
proof -
  have h: "length (trainingData (filledTrainer 10000)) \<le> maxSamples"
    by (simp add: filledTrainer_def maxSamples_def)
  from buffer_fifo_bounded [OF h, of zeroState "Num 0"] h show ?thesis
    by (auto simp: filledTrainer_def maxSamples_def zeroState_def)
qed

section \<open>The forward pass\<close>

lemma is_num_val: "is_num x \<Longrightarrow> x = Num (val x)"
  by (cases x) simp_all

lemma sigmoid_Num: "sigmoid (Num r) = Num (1 / (1 + exp (- max (- 500) (min 500 r))))"
proof -
  have "1 + exp (- max (- 500) (min 500 r)) > 0"
    by (simp add: add_pos_pos)
  then show ?thesis by (simp add: sigmoid_def)
qed

lemma sigmoid_NaN: "sigmoid NaN = NaN"
  by (simp add: sigmoid_def)

lemma sigmoid_range: "\<exists>y. sigmoid (Num r) = Num y \<and> 0 < y \<and> y < 1"
proof -
  have "exp (- max (- 500) (min 500 r)) > 0" by simp
  then show ?thesis unfolding sigmoid_Num by (simp add: add_pos_pos)
qed

lemma jsum_Suc: "jsum b f (Suc n) = jadd (jsum b f n) (f n)"
  by (simp add: jsum_def)

lemma jsum_0: "jsum b f 0 = b"
  by (simp add: jsum_def)

lemma jsum_cong: "(\<And>i. i < n \<Longrightarrow> f i = f' i) \<Longrightarrow> jsum b f n = jsum b f' n"
  by (induction n) (simp_all add: jsum_0 jsum_Suc)

lemma jsum_Num: "jsum (Num b) (\<lambda>i. Num (f i)) n = Num (b + (\<Sum>i<n. f i))"
  by (induction n) (simp_all add: jsum_0 jsum_Suc)

lemma for_each_rows:
  "n \<le> length W \<Longrightarrow>
   for_each [0..<n] (\<lambda>i s. bindE (rowget W i) (\<lambda>row. Inr (F i row s))) s0
     = Inr (foldl (\<lambda>s i. F i (W ! i) s) s0 [0..<n])"
  by (induction n) (auto simp: for_each_append rowget_def)

lemma aset_length: "aset xs (length xs) v = xs @ [v]"
  by (simp add: aset_def)

lemma for_each_layer:
  "(\<And>h. h < n \<Longrightarrow> G h = Inr (g h)) \<Longrightarrow>
   for_each [0..<n] (\<lambda>h acc. bindE (G h) (\<lambda>s. Inr (aset acc h (K h s)))) []
     = Inr (map (\<lambda>h. K h (g h)) [0..<n])"
proof (induction n)
  case 0
  show ?case by simp
next
  case (Suc n)
  have "for_each [0..<n] (\<lambda>h acc. bindE (G h) (\<lambda>s. Inr (aset acc h (K h s)))) []
     = Inr (map (\<lambda>h. K h (g h)) [0..<n])" using Suc by simp
  moreover have "G n = Inr (g n)" using Suc.prems by simp
  ultimately show ?case
    using aset_length [of "map (\<lambda>h. K h (g h)) [0..<n]" "K n (g n)"]
    by (simp add: for_each_append)
qed

lemma hiddenSum_eq:
  assumes "length (weightsIH net) = inputSize net"
  shows "hiddenSum net xs h =
     Inr (jsum (aget (biasH net) h) (\<lambda>i. jmul (aget xs i) (aget (weightsIH net ! i) h)) (inputSize net))"
  unfolding hiddenSum_def jsum_def
  using for_each_rows [of "inputSize net" "weightsIH net"
      "\<lambda>i row s. jadd s (jmul (aget xs i) (aget row h))" "aget (biasH net) h"] assms
  by simp

lemma outputSum_eq:
  assumes "length (weightsHO net) = hiddenSize net"
  shows "outputSum net hid k =
     Inr (jsum (aget (biasO net) k) (\<lambda>h. jmul (aget hid h) (aget (weightsHO net ! h) k)) (hiddenSize net))"
  unfolding outputSum_def jsum_def
  using for_each_rows [of "hiddenSize net" "weightsHO net"
      "\<lambda>h row s. jadd s (jmul (aget hid h) (aget row k))" "aget (biasO net) k"] assms
  by simp

lemma hiddenLayer_eq:
  assumes "length (weightsIH net) = inputSize net"
  shows "hiddenLayer net xs = Inr (spec_hidden net xs)"
  unfolding hiddenLayer_def spec_hidden_def
  by (rule for_each_layer) (simp add: hiddenSum_eq [OF assms])

lemma outputLayer_eq:
  assumes "length (weightsHO net) = hiddenSize net"
  shows "outputLayer net hid = Inr (spec_output net hid)"
  unfolding outputLayer_def spec_output_def
  by (rule for_each_layer) (simp add: outputSum_eq [OF assms])

lemma forwardPass_eq:
  assumes "well_formed net" and "length xs = inputSize net"
  shows "forwardPass net xs =
     Inr (spec_output net (spec_hidden net xs),
          net\<lparr>lastInputs := Some xs, lastHidden := Some (spec_hidden net xs),
              lastOutput := Some (spec_output net (spec_hidden net xs))\<rparr>)"
proof -
  have a: "length (weightsIH net) = inputSize net" and b: "length (weightsHO net) = hiddenSize net"
    using assms(1) by (simp_all add: well_formed_def)
  show ?thesis
    by (simp add: forwardPass_def assms(2) hiddenLayer_eq [OF a] outputLayer_eq [OF b])
qed

lemma forwardPass_frame:
  assumes "forwardPass net xs = Inr (out, net')"
  shows "net' = net\<lparr>lastInputs := Some xs, lastHidden := lastHidden net', lastOutput := Some out\<rparr>"
  using assms by (auto simp: forwardPass_def bindE_eq_Inr split: if_splits)


lemma is_num_jadd [simp]: "is_num a \<Longrightarrow> is_num b \<Longrightarrow> is_num (jadd a b)"
  by (cases a; cases b) simp_all

lemma is_num_jmul [simp]: "is_num a \<Longrightarrow> is_num b \<Longrightarrow> is_num (jmul a b)"
  by (cases a; cases b) simp_all

lemma is_num_jsub [simp]: "is_num a \<Longrightarrow> is_num b \<Longrightarrow> is_num (jsub a b)"
  by (cases a; cases b) simp_all

lemma jsum_is_num: "is_num b \<Longrightarrow> (\<And>i. i < n \<Longrightarrow> is_num (f i)) \<Longrightarrow> is_num (jsum b f n)"
  by (induction n) (simp_all add: jsum_0 jsum_Suc)

lemma sigmoid_unit: "is_num x \<Longrightarrow> \<exists>y. sigmoid x = Num y \<and> 0 < y \<and> y < 1"
  using sigmoid_range by (cases x) simp_all

lemma aget_nth: "i < length xs \<Longrightarrow> aget xs i = xs ! i"
  by (simp add: aget_def)

lemma length_spec_hidden [simp]: "length (spec_hidden net xs) = hiddenSize net"
  by (simp add: spec_hidden_def)

lemma length_spec_output [simp]: "length (spec_output net hid) = outputSize net"
  by (simp add: spec_output_def)

lemma spec_hidden_nth:
  assumes "well_formed net" and "length xs = inputSize net" and "h < hiddenSize net"
  shows "spec_hidden net xs ! h =
     sigmoid (jsum (biasH net ! h) (\<lambda>i. jmul (xs ! i) (weightsIH net ! i ! h)) (inputSize net))"
proof -
  have "jsum (aget (biasH net) h) (\<lambda>i. jmul (aget xs i) (aget (weightsIH net ! i) h)) (inputSize net)
      = jsum (biasH net ! h) (\<lambda>i. jmul (xs ! i) (weightsIH net ! i ! h)) (inputSize net)"
    using assms by (auto simp: well_formed_def aget_nth intro!: jsum_cong)
  then show ?thesis using assms(3) by (simp add: spec_hidden_def)
qed

lemma spec_output_nth:
  assumes "well_formed net" and "length hid = hiddenSize net" and "k < outputSize net"
  shows "spec_output net hid ! k =
     sigmoid (jsum (biasO net ! k) (\<lambda>h. jmul (hid ! h) (weightsHO net ! h ! k)) (hiddenSize net))"
proof -
  have "jsum (aget (biasO net) k) (\<lambda>h. jmul (aget hid h) (aget (weightsHO net ! h) k)) (hiddenSize net)
      = jsum (biasO net ! k) (\<lambda>h. jmul (hid ! h) (weightsHO net ! h ! k)) (hiddenSize net)"
    using assms by (auto simp: well_formed_def aget_nth intro!: jsum_cong)
  then show ?thesis using assms(3) by (simp add: spec_output_def)
qed

lemma rows_nth_length:
  "\<forall>row \<in> set W. length row = n \<Longrightarrow> i < length W \<Longrightarrow> length (W ! i) = n"
  by simp

lemma rows_nth_is_num:
  assumes "\<forall>row \<in> set W. \<forall>x \<in> set row. is_num x" and "i < length W" and "j < length (W ! i)"
  shows "is_num (W ! i ! j)"
proof -
  have "W ! i \<in> set W" using assms(2) by simp
  moreover have "W ! i ! j \<in> set (W ! i)" using assms(3) by simp
  ultimately show ?thesis using assms(1) by simp
qed

lemma spec_hidden_unit:
  assumes "well_formed net" and "real_valued net" and "length xs = inputSize net"
    and "\<forall>x \<in> set xs. is_num x" and "h < hiddenSize net"
  shows "\<exists>y. spec_hidden net xs ! h = Num y \<and> 0 < y \<and> y < 1"
proof -
  have "is_num (jsum (biasH net ! h) (\<lambda>i. jmul (xs ! i) (weightsIH net ! i ! h)) (inputSize net))"
  proof (rule jsum_is_num)
    show "is_num (biasH net ! h)" using assms by (simp add: well_formed_def real_valued_def)
  next
    fix i assume i: "i < inputSize net"
    have "is_num (weightsIH net ! i ! h)"
    proof (rule rows_nth_is_num)
      show "\<forall>row \<in> set (weightsIH net). \<forall>x \<in> set row. is_num x"
        using assms(2) by (simp add: real_valued_def)
      show "i < length (weightsIH net)" using assms(1) i by (simp add: well_formed_def)
      then show "h < length (weightsIH net ! i)" using assms(1,5) by (simp add: well_formed_def)
    qed
    then show "is_num (jmul (xs ! i) (weightsIH net ! i ! h))" using assms i by simp
  qed
  from sigmoid_unit [OF this] show ?thesis by (simp only: spec_hidden_nth [OF assms(1,3,5)])
qed

lemma spec_output_unit:
  assumes "well_formed net" and "real_valued net" and "length hid = hiddenSize net"
    and "\<forall>x \<in> set hid. is_num x" and "k < outputSize net"
  shows "\<exists>y. spec_output net hid ! k = Num y \<and> 0 < y \<and> y < 1"
proof -
  have "is_num (jsum (biasO net ! k) (\<lambda>h. jmul (hid ! h) (weightsHO net ! h ! k)) (hiddenSize net))"
  proof (rule jsum_is_num)
    show "is_num (biasO net ! k)" using assms by (simp add: well_formed_def real_valued_def)
  next
    fix h assume h: "h < hiddenSize net"
    have "is_num (weightsHO net ! h ! k)"
    proof (rule rows_nth_is_num)
      show "\<forall>row \<in> set (weightsHO net). \<forall>x \<in> set row. is_num x"
        using assms(2) by (simp add: real_valued_def)
      show "h < length (weightsHO net)" using assms(1) h by (simp add: well_formed_def)
      then show "k < length (weightsHO net ! h)" using assms(1,5) by (simp add: well_formed_def)
    qed
    then show "is_num (jmul (hid ! h) (weightsHO net ! h ! k))" using assms h by simp
  qed
  from sigmoid_unit [OF this] show ?thesis by (simp only: spec_output_nth [OF assms(1,3,5)])
qed

lemma spec_hidden_is_num:
  assumes "well_formed net" and "real_valued net" and "length xs = inputSize net"
    and "\<forall>x \<in> set xs. is_num x"
  shows "\<forall>x \<in> set (spec_hidden net xs). is_num x"
proof
  fix x assume "x \<in> set (spec_hidden net xs)"
  then obtain h where "h < hiddenSize net" and "x = spec_hidden net xs ! h"
    by (auto simp: in_set_conv_nth)
  then show "is_num x" using spec_hidden_unit [OF assms, of h] by auto
qed

lemma forwardPass_params:
  assumes "forwardPass net xs = Inr (out, net')"
  shows "weightsIH net' = weightsIH net \<and> weightsHO net' = weightsHO net \<and>
         biasH net' = biasH net \<and> biasO net' = biasO net \<and>
         inputSize net' = inputSize net \<and> hiddenSize net' = hiddenSize net \<and>
         outputSize net' = outputSize net"
proof -
  from forwardPass_frame [OF assms] obtain hid where
    "net' = net\<lparr>lastInputs := Some xs, lastHidden := hid, lastOutput := Some out\<rparr>" by blast
  then show ?thesis by simp
qed

text \<open>
  Claim C2. On a well-formed network and an input of length \<^verbatim>\<open>inputSize\<close>, \<^verbatim>\<open>forwardPass\<close>
  returns the output vector and overwrites the three caches with exactly the input, the
  hidden activations and the output. Hidden unit \<open>h\<close> is the sigmoid of its bias plus
  the sum over \<open>i\<close> of \<open>input i * weightsIH i h\<close>, output unit \<open>k\<close> the sigmoid of its
  bias plus the sum over \<open>h\<close> of \<open>hidden h * weightsHO h k\<close>; on real numbers \<open>jsum\<close> is
  the bias plus the finite sum, and the sigmoid is the logistic function of its argument
  clamped to \<open>[-500, 500]\<close>.
\<close>

theorem forwardPass_computes:
  assumes "well_formed net" and "length xs = inputSize net"
  shows "\<exists>hid out.
           forwardPass net xs =
             Inr (out, net\<lparr>lastInputs := Some xs, lastHidden := Some hid, lastOutput := Some out\<rparr>) \<and>
           length hid = hiddenSize net \<and> length out = outputSize net \<and>
           (\<forall>h < hiddenSize net. hid ! h =
              sigmoid (jsum (biasH net ! h) (\<lambda>i. jmul (xs ! i) (weightsIH net ! i ! h)) (inputSize net))) \<and>
           (\<forall>k < outputSize net. out ! k =
              sigmoid (jsum (biasO net ! k) (\<lambda>h. jmul (hid ! h) (weightsHO net ! h ! k)) (hiddenSize net))) \<and>
           (\<forall>b f n. jsum (Num b) (\<lambda>i. Num (f i)) n = Num (b + (\<Sum>i<n. f i))) \<and>
           (\<forall>r. sigmoid (Num r) = Num (1 / (1 + exp (- max (- 500) (min 500 r)))))"
proof -
  let ?hid = "spec_hidden net xs"
  let ?out = "spec_output net ?hid"
  have 1: "forwardPass net xs =
     Inr (?out, net\<lparr>lastInputs := Some xs, lastHidden := Some ?hid, lastOutput := Some ?out\<rparr>)"
    by (rule forwardPass_eq [OF assms])
  have 2: "length ?hid = hiddenSize net" and 3: "length ?out = outputSize net"
    by simp_all
  have 4: "\<forall>h < hiddenSize net. ?hid ! h =
     sigmoid (jsum (biasH net ! h) (\<lambda>i. jmul (xs ! i) (weightsIH net ! i ! h)) (inputSize net))"
    using spec_hidden_nth [OF assms] by simp
  have 5: "\<forall>k < outputSize net. ?out ! k =
     sigmoid (jsum (biasO net ! k) (\<lambda>h. jmul (?hid ! h) (weightsHO net ! h ! k)) (hiddenSize net))"
    using spec_output_nth [OF assms(1), of ?hid] by simp
  have 6: "\<forall>b f n. jsum (Num b) (\<lambda>i. Num (f i)) n = Num (b + (\<Sum>i<n. f i))"
    by (simp add: jsum_Num)
  have 7: "\<forall>r. sigmoid (Num r) = Num (1 / (1 + exp (- max (- 500) (min 500 r))))"
    by (simp add: sigmoid_Num)
  show ?thesis
    apply (rule exI [of _ ?hid])
    apply (rule exI [of _ ?out])
    using 1 2 3 4 5 6 7 apply (intro conjI)
          apply assumption+
    done
qed

theorem forwardPass_computes_witness:
  "well_formed zeroNet \<and> length [Num 0, Num 0, Num 0, Num 0] = inputSize zeroNet \<and>
   (\<exists>hid out.
      forwardPass zeroNet [Num 0, Num 0, Num 0, Num 0] =
        Inr (out, zeroNet\<lparr>lastInputs := Some [Num 0, Num 0, Num 0, Num 0],
                          lastHidden := Some hid, lastOutput := Some out\<rparr>) \<and>
      length hid = 8 \<and> length out = 1)"
proof -
  have h1: "well_formed zeroNet" by (simp add: well_formed_def zeroNet_def)
  have h2: "length [Num 0, Num 0, Num 0, Num 0] = inputSize zeroNet" by (simp add: zeroNet_def)
  from forwardPass_computes [OF h1 h2] obtain hid out where
    a: "forwardPass zeroNet [Num 0, Num 0, Num 0, Num 0] =
        Inr (out, zeroNet\<lparr>lastInputs := Some [Num 0, Num 0, Num 0, Num 0],
                          lastHidden := Some hid, lastOutput := Some out\<rparr>)"
    and b: "length hid = hiddenSize zeroNet" and c: "length out = outputSize zeroNet"
    by (elim exE conjE)
  have b': "length hid = 8" using b by (simp add: zeroNet_def)
  have c': "length out = 1" using c by (simp add: zeroNet_def)
  show ?thesis
    apply (intro conjI h1 h2)
    apply (rule exI [of _ hid])
    apply (rule exI [of _ out])
    using a b' c' apply (intro conjI)
      apply assumption+
    done
qed

text \<open>
  Claim C9. On an input of length \<^verbatim>\<open>inputSize\<close>, a \<^verbatim>\<open>forwardPass\<close> that returns leaves the
  four parameter structures and the three sizes as they were: the network afterwards is
  the network before with only \<^verbatim>\<open>lastInputs\<close>, \<^verbatim>\<open>lastHidden\<close> and \<^verbatim>\<open>lastOutput\<close> replaced.
  On a well-formed network it does return. (A call that throws has no result state in
  this model; the source assigns only the three caches before any throw.)
\<close>

theorem forwardPass_frame_only_caches:
  assumes "length xs = inputSize net"
  shows "(\<forall>out net'. forwardPass net xs = Inr (out, net') \<longrightarrow>
            weightsIH net' = weightsIH net \<and> weightsHO net' = weightsHO net \<and>
            biasH net' = biasH net \<and> biasO net' = biasO net \<and>
            inputSize net' = inputSize net \<and> hiddenSize net' = hiddenSize net \<and>
            outputSize net' = outputSize net \<and>
            net' = net\<lparr>lastInputs := Some xs, lastHidden := lastHidden net',
                       lastOutput := Some out\<rparr>)
       \<and> (well_formed net \<longrightarrow> (\<exists>out net'. forwardPass net xs = Inr (out, net')))"
proof (intro conjI allI impI)
  fix out net' assume a: "forwardPass net xs = Inr (out, net')"
  show "net' = net\<lparr>lastInputs := Some xs, lastHidden := lastHidden net', lastOutput := Some out\<rparr>"
    by (rule forwardPass_frame [OF a])
  show "weightsIH net' = weightsIH net" using forwardPass_params [OF a] by simp
  show "weightsHO net' = weightsHO net" using forwardPass_params [OF a] by simp
  show "biasH net' = biasH net" using forwardPass_params [OF a] by simp
  show "biasO net' = biasO net" using forwardPass_params [OF a] by simp
  show "inputSize net' = inputSize net" using forwardPass_params [OF a] by simp
  show "hiddenSize net' = hiddenSize net" using forwardPass_params [OF a] by simp
  show "outputSize net' = outputSize net" using forwardPass_params [OF a] by simp
next
  assume "well_formed net"
  then show "\<exists>out net'. forwardPass net xs = Inr (out, net')"
    using forwardPass_eq [OF _ assms] by blast
qed

theorem forwardPass_frame_only_caches_witness:
  "length [Num 0, Num 0, Num 0, Num 0] = inputSize zeroNet \<and>
   (\<exists>out net'. forwardPass zeroNet [Num 0, Num 0, Num 0, Num 0] = Inr (out, net') \<and>
      weightsIH net' = weightsIH zeroNet \<and> weightsHO net' = weightsHO zeroNet \<and>
      biasH net' = biasH zeroNet \<and> biasO net' = biasO zeroNet \<and>
      inputSize net' = 4 \<and> hiddenSize net' = 8 \<and> outputSize net' = 1)"
proof -
  have h1: "length [Num 0, Num 0, Num 0, Num 0] = inputSize zeroNet" by (simp add: zeroNet_def)
  have h2: "well_formed zeroNet" by (simp add: well_formed_def zeroNet_def)
  note t = forwardPass_frame_only_caches [OF h1]
  from t h2 obtain out net' where
    a: "forwardPass zeroNet [Num 0, Num 0, Num 0, Num 0] = Inr (out, net')" by blast
  from t a have
    b: "weightsIH net' = weightsIH zeroNet \<and> weightsHO net' = weightsHO zeroNet \<and>
        biasH net' = biasH zeroNet \<and> biasO net' = biasO zeroNet \<and>
        inputSize net' = inputSize zeroNet \<and> hiddenSize net' = hiddenSize zeroNet \<and>
        outputSize net' = outputSize zeroNet" by blast
  have c: "inputSize zeroNet = 4" "hiddenSize zeroNet = 8" "outputSize zeroNet = 1"
    by (simp_all add: zeroNet_def)
  show ?thesis
    apply (intro conjI h1)
    apply (rule exI [of _ out])
    apply (rule exI [of _ net'])
    using a b c apply simp
    done
qed

section \<open>The decision of the policy\<close>

lemma jsum_zero: "(\<And>i. i < n \<Longrightarrow> f i = Num 0) \<Longrightarrow> jsum (Num b) f n = Num b"
  by (induction n) (simp_all add: jsum_0 jsum_Suc)

lemma zero_inputs: "[Num 0, Num 0, Num 0, Num 0] = replicate 4 (Num 0)"
  by (simp add: numeral_eq_Suc)

lemma zeroNet_well_formed: "well_formed zeroNet"
  by (simp add: well_formed_def zeroNet_def)

lemma zeroNet_real_valued: "real_valued zeroNet"
  by (simp add: real_valued_def zeroNet_def)

lemma sigmoid_zero: "sigmoid (Num 0) = Num (1 / 2)"
  by (simp add: sigmoid_Num)

lemma zeroNet_hidden: "spec_hidden zeroNet (replicate 4 (Num 0)) = replicate 8 (Num (1 / 2))"
proof -
  have "\<And>h. h < 8 \<Longrightarrow>
    sigmoid (jsum (aget (biasH zeroNet) h)
      (\<lambda>i. jmul (aget (replicate 4 (Num 0)) i) (aget (weightsIH zeroNet ! i) h)) 4) = Num (1 / 2)"
  proof -
    fix h :: nat assume h: "h < 8"
    have "jsum (Num 0) (\<lambda>i. jmul (aget (replicate 4 (Num 0)) i) (aget (weightsIH zeroNet ! i) h)) 4
        = Num 0"
      using h by (intro jsum_zero) (simp add: aget_def zeroNet_def)
    then show "sigmoid (jsum (aget (biasH zeroNet) h)
      (\<lambda>i. jmul (aget (replicate 4 (Num 0)) i) (aget (weightsIH zeroNet ! i) h)) 4) = Num (1 / 2)"
      using h by (simp add: aget_def zeroNet_def sigmoid_zero)
  qed
  then have "map (\<lambda>h. sigmoid (jsum (aget (biasH zeroNet) h)
      (\<lambda>i. jmul (aget (replicate 4 (Num 0)) i) (aget (weightsIH zeroNet ! i) h)) 4)) [0..<8]
      = map (\<lambda>h. Num (1 / 2)) [0..<8]"
    by (intro map_cong) simp_all
  then show ?thesis by (simp add: spec_hidden_def zeroNet_def map_replicate_const)
qed

lemma zeroNet_output: "spec_output zeroNet (replicate 8 (Num (1 / 2))) = [Num (1 / 2)]"
proof -
  have "jsum (Num 0) (\<lambda>h. jmul (aget (replicate 8 (Num (1 / 2))) h) (aget (weightsHO zeroNet ! h) 0)) 8
      = Num 0"
    by (intro jsum_zero) (simp add: aget_def zeroNet_def)
  then show ?thesis by (simp add: spec_output_def zeroNet_def aget_def sigmoid_zero)
qed

lemma spec_hidden_caches [simp]:
  "spec_hidden (net\<lparr>lastInputs := a, lastHidden := b, lastOutput := c\<rparr>) xs = spec_hidden net xs"
  by (simp add: spec_hidden_def)

lemma spec_output_caches [simp]:
  "spec_output (net\<lparr>lastInputs := a, lastHidden := b, lastOutput := c\<rparr>) hid = spec_output net hid"
  by (simp add: spec_output_def)

lemma well_formed_caches [simp]:
  "well_formed (net\<lparr>lastInputs := a, lastHidden := b, lastOutput := c\<rparr>) = well_formed net"
  by (simp add: well_formed_def)

lemma zeroNet_forwardPass:
  "forwardPass (zeroNet\<lparr>lastInputs := a, lastHidden := b, lastOutput := c\<rparr>)
     [Num 0, Num 0, Num 0, Num 0] =
   Inr ([Num (1 / 2)],
        zeroNet\<lparr>lastInputs := Some [Num 0, Num 0, Num 0, Num 0],
                lastHidden := Some (replicate 8 (Num (1 / 2))),
                lastOutput := Some [Num (1 / 2)]\<rparr>)"
proof -
  let ?z = "zeroNet\<lparr>lastInputs := a, lastHidden := b, lastOutput := c\<rparr>"
  have w: "well_formed ?z" by (simp add: zeroNet_well_formed)
  have l: "length (replicate 4 (Num 0)) = inputSize ?z" by (simp add: zeroNet_def)
  show ?thesis
    unfolding zero_inputs
    by (simp add: forwardPass_eq [OF w l] zeroNet_hidden zeroNet_output)
qed

lemma addSample_last:
  "\<exists>t'. addSample t (Some g) a = Inr t' \<and>
      last (trainingData t') =
        \<lparr>inputs = [birdY g, birdVelocity g, pipeDistance g, pipeGapY g], target = [a]\<rparr>"
  by (cases "trainingData t") (simp_all add: addSample_def Let_def maxSamples_def)

text \<open>
  Claim C6. \<^verbatim>\<open>predict\<close> throws on an absent game state. Otherwise it runs the forward pass
  on the vector \<open>[birdY, birdVelocity, pipeDistance, pipeGapY]\<close>, the very vector that
  \<^verbatim>\<open>addSample\<close> stores as the inputs of the sample it appends, and returns whether the
  first output is strictly above \<open>0.5\<close>; an error of the forward pass is passed on. With
  every weight and bias at \<open>0\<close> and sizes 4, 8, 1, the forward pass on \<open>[0, 0, 0, 0]\<close>
  gives eight hidden values \<open>0.5\<close> and the output \<open>[0.5]\<close>, and \<^verbatim>\<open>predict\<close> is false.
\<close>

theorem predict_threshold:
  "predict net None = Inl InvalidGameState
   \<and> (\<forall>t a. \<exists>t'. addSample t (Some g) a = Inr t' \<and>
          inputs (last (trainingData t')) = [birdY g, birdVelocity g, pipeDistance g, pipeGapY g] \<and>
          predict net (Some g) =
            bindE (forwardPass net (inputs (last (trainingData t'))))
              (\<lambda>(output, net'). Inr (jgt (aget output 0) (Num 0.5), net')))
   \<and> (\<forall>y rest net'.
          forwardPass net [birdY g, birdVelocity g, pipeDistance g, pipeGapY g]
            = Inr (Num y # rest, net') \<longrightarrow>
          predict net (Some g) = Inr (0.5 < y, net'))
   \<and> (\<forall>e. forwardPass net [birdY g, birdVelocity g, pipeDistance g, pipeGapY g] = Inl e \<longrightarrow>
          predict net (Some g) = Inl e)
   \<and> (\<forall>a b c.
          forwardPass (zeroNet\<lparr>lastInputs := a, lastHidden := b, lastOutput := c\<rparr>)
            [Num 0, Num 0, Num 0, Num 0] =
            Inr ([Num 0.5],
                 zeroNet\<lparr>lastInputs := Some [Num 0, Num 0, Num 0, Num 0],
                         lastHidden := Some (replicate 8 (Num 0.5)),
                         lastOutput := Some [Num 0.5]\<rparr>) \<and>
          predict (zeroNet\<lparr>lastInputs := a, lastHidden := b, lastOutput := c\<rparr>) (Some zeroState) =
            Inr (False,
                 zeroNet\<lparr>lastInputs := Some [Num 0, Num 0, Num 0, Num 0],
                         lastHidden := Some (replicate 8 (Num 0.5)),
                         lastOutput := Some [Num 0.5]\<rparr>))"
proof (intro conjI allI impI)
  show "predict net None = Inl InvalidGameState" by (simp add: predict_def)
next
  fix t a
  show "\<exists>t'. addSample t (Some g) a = Inr t' \<and>
          inputs (last (trainingData t')) = [birdY g, birdVelocity g, pipeDistance g, pipeGapY g] \<and>
          predict net (Some g) =
            bindE (forwardPass net (inputs (last (trainingData t'))))
              (\<lambda>(output, net'). Inr (jgt (aget output 0) (Num 0.5), net'))"
    using addSample_last [of t g a] by (auto simp: predict_def)
next
  fix y rest net'
  assume "forwardPass net [birdY g, birdVelocity g, pipeDistance g, pipeGapY g]
            = Inr (Num y # rest, net')"
  then show "predict net (Some g) = Inr (0.5 < y, net')"
    by (simp add: predict_def aget_def)
next
  fix e
  assume "forwardPass net [birdY g, birdVelocity g, pipeDistance g, pipeGapY g] = Inl e"
  then show "predict net (Some g) = Inl e" by (simp add: predict_def)
next
  fix a b c
  show "forwardPass (zeroNet\<lparr>lastInputs := a, lastHidden := b, lastOutput := c\<rparr>)
            [Num 0, Num 0, Num 0, Num 0] =
            Inr ([Num 0.5],
                 zeroNet\<lparr>lastInputs := Some [Num 0, Num 0, Num 0, Num 0],
                         lastHidden := Some (replicate 8 (Num 0.5)),
                         lastOutput := Some [Num 0.5]\<rparr>)"
    using zeroNet_forwardPass [where a = a and b = b and c = c] by simp
  then show "predict (zeroNet\<lparr>lastInputs := a, lastHidden := b, lastOutput := c\<rparr>) (Some zeroState) =
            Inr (False,
                 zeroNet\<lparr>lastInputs := Some [Num 0, Num 0, Num 0, Num 0],
                         lastHidden := Some (replicate 8 (Num 0.5)),
                         lastOutput := Some [Num 0.5]\<rparr>)"
    by (simp add: predict_def zeroState_def aget_def)
qed

theorem predict_threshold_witness:
  "forwardPass zeroNet
     [birdY zeroState, birdVelocity zeroState, pipeDistance zeroState, pipeGapY zeroState] =
     Inr ([Num (1 / 2)],
          zeroNet\<lparr>lastInputs := Some [Num 0, Num 0, Num 0, Num 0],
                  lastHidden := Some (replicate 8 (Num (1 / 2))),
                  lastOutput := Some [Num (1 / 2)]\<rparr>) \<and>
   predict zeroNet (Some zeroState) =
     Inr (False,
          zeroNet\<lparr>lastInputs := Some [Num 0, Num 0, Num 0, Num 0],
                  lastHidden := Some (replicate 8 (Num (1 / 2))),
                  lastOutput := Some [Num (1 / 2)]\<rparr>)"
proof -
  let ?z = "zeroNet\<lparr>lastInputs := Some [Num 0, Num 0, Num 0, Num 0],
                    lastHidden := Some (replicate 8 (Num (1 / 2))),
                    lastOutput := Some [Num (1 / 2)]\<rparr>"
  have z: "zeroNet = zeroNet\<lparr>lastInputs := None, lastHidden := None, lastOutput := None\<rparr>"
    by (simp add: zeroNet_def)
  have a: "forwardPass zeroNet
     [birdY zeroState, birdVelocity zeroState, pipeDistance zeroState, pipeGapY zeroState] =
     Inr (Num (1 / 2) # [], ?z)"
    using zeroNet_forwardPass [where a = None and b = None and c = None]
    by (simp add: z [symmetric] zeroState_def)
  from predict_threshold [of zeroNet zeroState] a
  have "predict zeroNet (Some zeroState) = Inr (0.5 < (1 / 2 :: real), ?z)" by blast
  with a show ?thesis by simp
qed

section \<open>Rounding, and the range of the outputs in binary64\<close>

lemma rne_of_int [simp]: "rne (real_of_int n) = n"
  by (simp add: rne_def)

lemma rne_lower: "real_of_int n \<le> y \<Longrightarrow> n \<le> rne y"
proof -
  assume "real_of_int n \<le> y"
  then have "n \<le> \<lfloor>y\<rfloor>" by (simp add: le_floor_iff)
  then show ?thesis by (simp add: rne_def Let_def)
qed

lemma rne_upper: "y \<le> real_of_int n \<Longrightarrow> rne y \<le> n"
proof (cases "y = real_of_int n")
  case True
  then show ?thesis by simp
next
  case False
  assume "y \<le> real_of_int n"
  then have "y < real_of_int n" using False by simp
  then have "\<lfloor>y\<rfloor> < n" by (simp add: floor_less_iff)
  then show ?thesis by (simp add: rne_def Let_def)
qed

lemma rne_below_half:
  assumes "0 \<le> d" and "d < 1 / 2"
  shows "rne (real_of_int n + d) = n"
proof -
  have "\<lfloor>real_of_int n + d\<rfloor> = n" using assms by (simp add: floor_unique)
  then show ?thesis using assms by (simp add: rne_def Let_def)
qed

lemma ulp64_pos [simp]: "0 < ulp64 a"
  by (simp add: ulp64_def)

lemma ulp64_nonneg [simp]: "0 \<le> ulp64 a"
  by (simp add: ulp64_def)

lemma nearest64_nonneg: "0 \<le> a \<Longrightarrow> 0 \<le> nearest64 a"
proof -
  assume "0 \<le> a"
  then have "0 \<le> a / ulp64 a" by (intro divide_nonneg_pos) simp_all
  then have "real_of_int 0 \<le> a / ulp64 a" by simp
  then have "0 \<le> rne (a / ulp64 a)" by (rule rne_lower)
  then show ?thesis unfolding nearest64_def by (intro mult_nonneg_nonneg) simp_all
qed

lemma log2_bounds:
  assumes "0 < a"
  shows "2 powr real_of_int \<lfloor>log 2 a\<rfloor> \<le> a" and "a < 2 powr real_of_int (\<lfloor>log 2 a\<rfloor> + 1)"
  using floor_log_eq_powr_iff [of a 2 "\<lfloor>log 2 a\<rfloor>"] assms by simp_all

lemma ulp64_scale: "ulp64 a * 2 powr real_of_int prec64 = 2 powr real_of_int (exponent64 a)"
  by (simp add: ulp64_def powr_add [symmetric])

lemma ulp64_scale2:
  "ulp64 a * 2 powr real_of_int (prec64 + 1) = 2 powr real_of_int (exponent64 a + 1)"
  by (simp add: ulp64_def powr_add [symmetric])

lemma int_pow_52: "real_of_int (2 ^ 52) = 2 powr real_of_int prec64"
  by (simp add: prec64_def)

lemma int_pow_53: "real_of_int (2 ^ 53) = 2 powr real_of_int (prec64 + 1)"
  by (simp add: prec64_def)

lemma scaled_upper:
  assumes "0 < a"
  shows "a / ulp64 a < 2 powr real_of_int (prec64 + 1)"
proof -
  have "a < 2 powr real_of_int (\<lfloor>log 2 a\<rfloor> + 1)" by (rule log2_bounds [OF assms])
  also have "\<dots> \<le> 2 powr real_of_int (exponent64 a + 1)"
    by (intro powr_mono) (simp_all add: exponent64_def)
  also have "\<dots> = 2 powr real_of_int (prec64 + 1) * ulp64 a"
    by (simp only: ulp64_scale2 [symmetric] mult.commute)
  finally show ?thesis by (simp only: pos_divide_less_eq [OF ulp64_pos])
qed

lemma nearest64_upper:
  assumes "0 < a"
  shows "nearest64 a \<le> 2 powr real_of_int (exponent64 a + 1)"
proof -
  have "a / ulp64 a \<le> real_of_int (2 ^ 53)"
    using scaled_upper [OF assms] by (simp only: int_pow_53)
  then have "rne (a / ulp64 a) \<le> 2 ^ 53" by (rule rne_upper)
  then have "real_of_int (rne (a / ulp64 a)) \<le> real_of_int (2 ^ 53)" by (simp only: of_int_le_iff)
  then have "real_of_int (rne (a / ulp64 a)) * ulp64 a \<le> real_of_int (2 ^ 53) * ulp64 a"
    by (intro mult_right_mono) simp_all
  also have "\<dots> = ulp64 a * 2 powr real_of_int (prec64 + 1)"
    by (simp only: int_pow_53 mult.commute)
  finally show ?thesis by (simp only: nearest64_def ulp64_scale2)
qed

lemma exponent64_normal:
  assumes "2 powr real_of_int emin64 \<le> a"
  shows "exponent64 a = \<lfloor>log 2 a\<rfloor>"
proof -
  have pos: "0 < a" using assms by (rule less_le_trans [rotated]) simp
  have "2 powr real_of_int emin64 < 2 powr real_of_int (\<lfloor>log 2 a\<rfloor> + 1)"
    using assms log2_bounds(2) [OF pos] by (rule le_less_trans)
  then have "real_of_int emin64 < real_of_int (\<lfloor>log 2 a\<rfloor> + 1)" by simp
  then have "emin64 \<le> \<lfloor>log 2 a\<rfloor>" by linarith
  then show ?thesis by (simp add: exponent64_def)
qed

lemma nearest64_lower:
  assumes "2 powr real_of_int emin64 \<le> a"
  shows "2 powr real_of_int \<lfloor>log 2 a\<rfloor> \<le> nearest64 a"
proof -
  have pos: "0 < a" using assms by (rule less_le_trans [rotated]) simp
  have e: "exponent64 a = \<lfloor>log 2 a\<rfloor>" by (rule exponent64_normal [OF assms])
  have "2 powr real_of_int prec64 * ulp64 a \<le> a"
    using log2_bounds(1) [OF pos] by (simp only: mult.commute [of _ "ulp64 a"] ulp64_scale e)
  then have "real_of_int (2 ^ 52) \<le> a / ulp64 a"
    by (simp only: int_pow_52 pos_le_divide_eq [OF ulp64_pos])
  then have "2 ^ 52 \<le> rne (a / ulp64 a)" by (rule rne_lower)
  then have "real_of_int (2 ^ 52) \<le> real_of_int (rne (a / ulp64 a))" by (simp only: of_int_le_iff)
  then have "real_of_int (2 ^ 52) * ulp64 a \<le> real_of_int (rne (a / ulp64 a)) * ulp64 a"
    by (intro mult_right_mono) simp_all
  moreover have "real_of_int (2 ^ 52) * ulp64 a = 2 powr real_of_int \<lfloor>log 2 a\<rfloor>"
    by (simp only: int_pow_52 mult.commute [of _ "ulp64 a"] ulp64_scale e)
  ultimately show ?thesis by (simp only: nearest64_def)
qed

lemma ulp64_nz: "ulp64 a \<noteq> 0"
  by (simp add: ulp64_def)

lemma round64_zero [simp]: "round64 0 = Fin 0"
  by (simp add: round64_def)

lemma round64_not_NotNum [simp]: "round64 x \<noteq> NotNum"
  by (simp add: round64_def)

lemma round64_pos: "0 < a \<Longrightarrow> nearest64 a < 2 powr 1024 \<Longrightarrow> round64 a = Fin (nearest64 a)"
  by (simp add: round64_def)

lemma floor_log2_less:
  assumes "0 < a" and "a < 2 powr real_of_int n"
  shows "\<lfloor>log 2 a\<rfloor> < n"
proof -
  have "2 powr real_of_int \<lfloor>log 2 a\<rfloor> < 2 powr real_of_int n"
    using log2_bounds(1) [OF assms(1)] assms(2) by (rule le_less_trans)
  then show ?thesis by simp
qed

lemma round64_normal:
  assumes "2 powr real_of_int emin64 \<le> a" and "a < 2 powr real_of_int 1023"
  shows "\<exists>y. round64 a = Fin y \<and> 2 powr real_of_int \<lfloor>log 2 a\<rfloor> \<le> y \<and>
           y \<le> 2 powr real_of_int (\<lfloor>log 2 a\<rfloor> + 1)"
proof -
  have pos: "0 < a" using assms(1) by (rule less_le_trans [rotated]) simp
  have e: "exponent64 a = \<lfloor>log 2 a\<rfloor>" by (rule exponent64_normal [OF assms(1)])
  have up: "nearest64 a \<le> 2 powr real_of_int (\<lfloor>log 2 a\<rfloor> + 1)"
    using nearest64_upper [OF pos] by (simp only: e)
  have "\<lfloor>log 2 a\<rfloor> < 1023" by (rule floor_log2_less [OF pos assms(2)])
  then have "real_of_int (\<lfloor>log 2 a\<rfloor> + 1) < 1024" by simp
  then have "(2::real) powr real_of_int (\<lfloor>log 2 a\<rfloor> + 1) < 2 powr 1024"
    by (intro powr_less_mono) simp_all
  then have "nearest64 a < 2 powr 1024" using up by linarith
  then have "round64 a = Fin (nearest64 a)" by (rule round64_pos [OF pos])
  then show ?thesis using up nearest64_lower [OF assms(1)] by simp
qed

lemma emin64_le_one: "2 powr real_of_int emin64 \<le> 1"
proof -
  have "(2::real) powr real_of_int emin64 \<le> 2 powr 0"
    by (intro powr_mono) (simp_all add: emin64_def)
  then show ?thesis by simp
qed

lemma round64_bounds:
  assumes "2 powr real_of_int emin64 \<le> a" and "a < 2 powr real_of_int 1023"
  shows "\<exists>y. round64 a = Fin y \<and> 0 < y \<and> y \<le> 2 * a"
proof -
  have pos: "0 < a" using assms(1) by (rule less_le_trans [rotated]) simp
  from round64_normal [OF assms] obtain y where
    r: "round64 a = Fin y" and l: "2 powr real_of_int \<lfloor>log 2 a\<rfloor> \<le> y"
    and u: "y \<le> 2 powr real_of_int (\<lfloor>log 2 a\<rfloor> + 1)" by (elim exE conjE)
  have "0 < y" using l by (rule less_le_trans [rotated]) simp
  moreover have "2 powr real_of_int (\<lfloor>log 2 a\<rfloor> + 1) = 2 * 2 powr real_of_int \<lfloor>log 2 a\<rfloor>"
    by (simp add: powr_add)
  then have "2 powr real_of_int (\<lfloor>log 2 a\<rfloor> + 1) \<le> 2 * a"
    using log2_bounds(1) [OF pos] by simp
  then have "y \<le> 2 * a" using u by linarith
  ultimately show ?thesis using r by simp
qed

lemma round64_ge_one:
  assumes "1 \<le> a" and "a < 2 powr real_of_int 1023"
  shows "\<exists>y. round64 a = Fin y \<and> 1 \<le> y \<and> y \<le> 2 * a"
proof -
  have pos: "0 < a" using assms(1) by simp
  have n: "2 powr real_of_int emin64 \<le> a" using emin64_le_one assms(1) by (rule order_trans)
  from round64_normal [OF n assms(2)] obtain y where
    r: "round64 a = Fin y" and l: "2 powr real_of_int \<lfloor>log 2 a\<rfloor> \<le> y"
    and u: "y \<le> 2 powr real_of_int (\<lfloor>log 2 a\<rfloor> + 1)" by (elim exE conjE)
  have "0 \<le> log 2 a" using assms(1) by simp
  then have "0 \<le> \<lfloor>log 2 a\<rfloor>" by simp
  then have "(2::real) powr 0 \<le> 2 powr real_of_int \<lfloor>log 2 a\<rfloor>"
    by (intro powr_mono) simp_all
  then have "1 \<le> y" using l by simp
  moreover have "2 powr real_of_int (\<lfloor>log 2 a\<rfloor> + 1) = 2 * 2 powr real_of_int \<lfloor>log 2 a\<rfloor>"
    by (simp add: powr_add)
  then have "2 powr real_of_int (\<lfloor>log 2 a\<rfloor> + 1) \<le> 2 * a"
    using log2_bounds(1) [OF pos] by simp
  then have "y \<le> 2 * a" using u by linarith
  ultimately show ?thesis using r by simp
qed

lemma round64_pow2:
  assumes "emin64 \<le> k" and "k \<le> 1023"
  shows "round64 (2 powr real_of_int k) = Fin (2 powr real_of_int k)"
proof -
  let ?a = "2 powr real_of_int k"
  have pos: "0 < ?a" by simp
  have "\<lfloor>log 2 ?a\<rfloor> = k" by simp
  then have e: "exponent64 ?a = k" using assms(1) by (simp add: exponent64_def)
  have u: "ulp64 ?a * 2 powr real_of_int prec64 = ?a"
    by (simp only: ulp64_scale e)
  have "?a / ulp64 ?a = (ulp64 ?a * 2 powr real_of_int prec64) / ulp64 ?a"
    by (simp only: u)
  then have "?a / ulp64 ?a = 2 powr real_of_int prec64"
    by (simp only: nonzero_mult_div_cancel_left [OF ulp64_nz])
  then have "?a / ulp64 ?a = real_of_int (2 ^ 52)" by (simp only: int_pow_52)
  then have "rne (?a / ulp64 ?a) = 2 ^ 52" by (simp only: rne_of_int)
  then have "nearest64 ?a = real_of_int (2 ^ 52) * ulp64 ?a" by (simp only: nearest64_def)
  also have "\<dots> = ?a" using u by (simp only: int_pow_52 mult.commute)
  finally have n: "nearest64 ?a = ?a" .
  have "real_of_int k < 1024" using assms(2) by simp
  then have "?a < 2 powr 1024" by (intro powr_less_mono) simp_all
  then show ?thesis using round64_pos [OF pos] n by simp
qed

lemma round64_one [simp]: "round64 1 = Fin 1"
  using round64_pow2 [of 0] by (simp add: emin64_def)

lemma round64_two [simp]: "round64 2 = Fin 2"
  using round64_pow2 [of 1] by (simp add: emin64_def)

lemma round64_half [simp]: "round64 (1 / 2) = Fin (1 / 2)"
  using round64_pow2 [of "- 1"] by (simp add: emin64_def powr_minus inverse_eq_divide)

lemma round64_64 [simp]: "round64 64 = Fin 64"
  using round64_pow2 [of 6] by (simp add: emin64_def)

lemma round64_le_one:
  assumes "2 powr real_of_int emin64 \<le> a" and "a \<le> 1"
  shows "\<exists>y. round64 a = Fin y \<and> 0 < y \<and> y \<le> 1"
proof (cases "a = 1")
  case True
  then show ?thesis by simp
next
  case False
  then have a1: "a < 1" using assms(2) by simp
  have pos: "0 < a" using assms(1) by (rule less_le_trans [rotated]) simp
  have "(1::real) < 2 powr real_of_int 1023" by simp
  then have top: "a < 2 powr real_of_int 1023" using a1 by simp
  from round64_normal [OF assms(1) top] obtain y where
    r: "round64 a = Fin y" and l: "2 powr real_of_int \<lfloor>log 2 a\<rfloor> \<le> y"
    and u: "y \<le> 2 powr real_of_int (\<lfloor>log 2 a\<rfloor> + 1)" by (elim exE conjE)
  have "0 < y" using l by (rule less_le_trans [rotated]) simp
  moreover have "log 2 a < 0" using a1 pos by simp
  then have "\<lfloor>log 2 a\<rfloor> < 0" by (simp add: floor_less_iff)
  then have "\<lfloor>log 2 a\<rfloor> + 1 \<le> 0" by linarith
  then have "real_of_int (\<lfloor>log 2 a\<rfloor> + 1) \<le> 0" by (simp only: of_int_le_0_iff)
  then have "(2::real) powr real_of_int (\<lfloor>log 2 a\<rfloor> + 1) \<le> 2 powr 0"
    by (intro powr_mono) simp_all
  then have "y \<le> 1" using u by simp
  ultimately show ?thesis using r by simp
qed

lemma round64_one_plus:
  assumes "0 \<le> e" and "e < 2 powr (- 53)"
  shows "round64 (1 + e) = Fin 1"
proof -
  let ?a = "1 + e"
  have e1: "e < 1"
  proof -
    have "(2::real) powr (- 53) \<le> 2 powr 0" by (intro powr_mono) simp_all
    then show ?thesis using assms(2) by simp
  qed
  have pos: "0 < ?a" using assms(1) by simp
  have "\<lfloor>log 2 ?a\<rfloor> = 0"
    using assms(1) e1 by (simp add: floor_log_eq_powr_iff [OF pos])
  then have e: "exponent64 ?a = 0" by (simp add: exponent64_def emin64_def)
  have u: "ulp64 ?a * 2 powr real_of_int prec64 = 1"
    using ulp64_scale [of ?a] by (simp only: e) simp
  have "2 powr real_of_int prec64 = (ulp64 ?a * 2 powr real_of_int prec64) / ulp64 ?a"
    by (simp only: nonzero_mult_div_cancel_left [OF ulp64_nz])
  also have "\<dots> = 1 / ulp64 ?a" by (simp only: u)
  finally have p: "2 powr real_of_int prec64 = 1 / ulp64 ?a" .
  have "?a / ulp64 ?a = ?a * (1 / ulp64 ?a)" by simp
  then have "?a / ulp64 ?a = ?a * 2 powr real_of_int prec64" by (simp only: p)
  also have "\<dots> = real_of_int (2 ^ 52) + e * 2 powr real_of_int prec64"
    by (simp only: int_pow_52 distrib_right mult_1)
  finally have s: "?a / ulp64 ?a = real_of_int (2 ^ 52) + e * 2 powr real_of_int prec64" .
  have "e * 2 powr real_of_int prec64 < 2 powr (- 53) * 2 powr real_of_int prec64"
    using assms(2) by (intro mult_strict_right_mono) simp_all
  also have "\<dots> = 1 / 2" by (simp add: powr_add [symmetric] prec64_def powr_minus inverse_eq_divide)
  finally have d: "e * 2 powr real_of_int prec64 < 1 / 2" .
  have d0: "0 \<le> e * 2 powr real_of_int prec64" using assms(1) by simp
  have "rne (?a / ulp64 ?a) = 2 ^ 52" unfolding s by (rule rne_below_half [OF d0 d])
  then have "nearest64 ?a = real_of_int (2 ^ 52) * ulp64 ?a" by (simp only: nearest64_def)
  also have "\<dots> = 1" using u by (simp only: int_pow_52 mult.commute)
  finally have n: "nearest64 ?a = 1" .
  have "(1::real) < 2 powr 1024" by simp
  then show ?thesis using round64_pos [OF pos] n by simp
qed

lemma round64_finite:
  assumes "\<bar>x\<bar> < 2 powr real_of_int 1023"
  shows "\<exists>y. round64 x = Fin y"
proof (cases "x = 0")
  case True
  then show ?thesis by simp
next
  case False
  then have pos: "0 < \<bar>x\<bar>" by simp
  have "\<lfloor>log 2 \<bar>x\<bar>\<rfloor> < 1023" by (rule floor_log2_less [OF pos assms])
  then have "exponent64 \<bar>x\<bar> + 1 \<le> 1023" by (simp add: exponent64_def emin64_def)
  then have "real_of_int (exponent64 \<bar>x\<bar> + 1) < 1024" by simp
  then have "(2::real) powr real_of_int (exponent64 \<bar>x\<bar> + 1) < 2 powr 1024"
    by (intro powr_less_mono) simp_all
  then have "nearest64 \<bar>x\<bar> < 2 powr 1024"
    using nearest64_upper [OF pos] by (rule le_less_trans [rotated])
  then show ?thesis by (simp add: round64_def)
qed


lemma exp_500_upper: "(y::real) \<le> 500 \<Longrightarrow> exp y \<le> 2 powr 1000"
proof -
  assume "y \<le> 500"
  then have "exp y \<le> exp (real 500 * 1)" by simp
  also have "\<dots> = exp 1 ^ 500" by (rule exp_of_nat_mult)
  also have "\<dots> \<le> 4 ^ 500"
  proof (rule power_mono)
    show "exp (1::real) \<le> 4" using exp_le by simp
    show "0 \<le> exp (1::real)" by simp
  qed
  also have "(4::real) ^ 500 = 2 powr 1000" by simp
  finally show ?thesis .
qed

lemma exp_500_lower: "- 500 \<le> (y::real) \<Longrightarrow> 2 powr (- 1000) \<le> exp y"
proof -
  assume "- 500 \<le> y"
  then have "- y \<le> 500" by simp
  then have "exp (- y) \<le> 2 powr 1000" by (rule exp_500_upper)
  then have "inverse (2 powr 1000) \<le> inverse (exp (- y))"
    by (intro le_imp_inverse_le) simp_all
  then show ?thesis by (simp add: powr_minus exp_minus)
qed

lemma sigmoid64_core:
  assumes "- 500 \<le> y" and "y \<le> 500"
  shows "\<exists>r. fdiv (Fin 1) (fadd (Fin 1) (fexp (Fin y))) = Fin r \<and> 0 < r \<and> r \<le> 1"
proof -
  define P :: real where "P = 2 powr 1000"
  define Q :: real where "Q = 2 powr 1003"
  define T :: real where "T = 2 powr real_of_int 1023"
  define B :: real where "B = 2 powr real_of_int emin64"
  have P1: "1 \<le> P"
  proof -
    have "(2::real) powr 0 \<le> 2 powr 1000" by (intro powr_mono) simp_all
    then show ?thesis by (simp add: P_def)
  qed
  have PQ: "8 * P = Q"
  proof -
    have "(2::real) powr 1003 = 2 powr (3 + 1000)" by simp
    also have "\<dots> = 2 powr 3 * 2 powr 1000" by (rule powr_add)
    finally show ?thesis by (simp add: P_def Q_def)
  qed
  have QT: "Q < T" unfolding Q_def T_def by (intro powr_less_mono) simp_all
  have BP: "B \<le> inverse Q"
  proof -
    have "(2::real) powr real_of_int emin64 \<le> 2 powr (- 1003)"
      by (intro powr_mono) (simp_all add: emin64_def)
    then show ?thesis by (simp add: B_def Q_def powr_minus)
  qed
  have up: "exp y \<le> P" unfolding P_def by (rule exp_500_upper [OF assms(2)])
  have "inverse P \<le> exp y"
    using exp_500_lower [OF assms(1)] by (simp add: P_def powr_minus)
  moreover have "inverse Q \<le> inverse P"
    using PQ P1 by (intro le_imp_inverse_le) simp_all
  ultimately have lo: "B \<le> exp y" using BP by linarith
  have hi: "exp y < T" using up PQ P1 QT by linarith
  from round64_bounds [OF lo [unfolded B_def] hi [unfolded T_def]] obtain y1 where
    r1: "round64 (exp y) = Fin y1" and p1: "0 < y1" and u1: "y1 \<le> 2 * exp y"
    by (elim exE conjE)
  have b1: "1 + y1 \<le> 3 * P" using u1 up P1 by linarith
  have hi2: "1 + y1 < T" using b1 PQ P1 QT by linarith
  have "1 \<le> 1 + y1" using p1 by simp
  from round64_ge_one [OF this hi2 [unfolded T_def]] obtain y2 where
    r2: "round64 (1 + y1) = Fin y2" and p2: "1 \<le> y2" and u2: "y2 \<le> 2 * (1 + y1)"
    by (elim exE conjE)
  have "y2 \<le> 2 + 2 * y1" using u2 by (simp add: algebra_simps)
  then have "y2 \<le> 6 * P" using b1 by linarith
  moreover have "6 * P \<le> 8 * P" using P1 by simp
  ultimately have b2: "y2 \<le> Q" unfolding PQ [symmetric] by (rule order_trans)
  have pos2: "0 < y2" using p2 by simp
  have "inverse Q \<le> inverse y2"
    using b2 pos2 by (intro le_imp_inverse_le) simp_all
  then have lo3: "B \<le> 1 / y2" using BP by (simp add: inverse_eq_divide)
  have hi3: "1 / y2 \<le> 1" using p2 by simp
  from round64_le_one [OF lo3 [unfolded B_def] hi3] obtain y3 where
    r3: "round64 (1 / y2) = Fin y3" and p3: "0 < y3" and u3: "y3 \<le> 1"
    by (elim exE conjE)
  have "fdiv (Fin 1) (fadd (Fin 1) (fexp (Fin y))) = Fin y3"
    using r1 r2 r3 pos2 by simp
  then show ?thesis using p3 u3 by simp
qed

lemma sigmoid64_NotNum [simp]: "sigmoid64 NotNum = NotNum"
  by (simp add: sigmoid64_def)

lemma sigmoid64_range:
  assumes "x \<noteq> NotNum"
  shows "\<exists>r. sigmoid64 x = Fin r \<and> 0 < r \<and> r \<le> 1"
proof (cases x)
  case (Fin s)
  have "sigmoid64 x = fdiv (Fin 1) (fadd (Fin 1) (fexp (Fin (- max (- 500) (min 500 s)))))"
    by (simp add: sigmoid64_def Fin)
  moreover have "- 500 \<le> - max (- 500) (min 500 s)" "- max (- 500) (min 500 s) \<le> 500"
    by simp_all
  ultimately show ?thesis using sigmoid64_core by (simp only:)
next
  case PosInf
  have "sigmoid64 x = fdiv (Fin 1) (fadd (Fin 1) (fexp (Fin (- 500))))"
    by (simp add: sigmoid64_def PosInf)
  then show ?thesis using sigmoid64_core [of "- 500"] by simp
next
  case NegInf
  have "sigmoid64 x = fdiv (Fin 1) (fadd (Fin 1) (fexp (Fin 500)))"
    by (simp add: sigmoid64_def NegInf)
  then show ?thesis using sigmoid64_core [of 500] by simp
next
  case NotNum
  then show ?thesis using assms by simp
qed

lemma sigmoid64_zero: "sigmoid64 (Fin 0) = Fin (1 / 2)"
  by (simp add: sigmoid64_def)

lemma exp_neg_small:
  assumes "55 \<le> (c::real)"
  shows "exp (- c) \<le> 2 powr (- 55)"
proof -
  have "(2::real) ^ 55 \<le> exp 1 ^ 55"
  proof (rule power_mono)
    show "(2::real) \<le> exp 1" using exp_ge_add_one_self [of "1::real"] by simp
    show "(0::real) \<le> 2" by simp
  qed
  also have "\<dots> = exp (real 55 * 1)" by (rule exp_of_nat_mult [symmetric])
  finally have "(2::real) ^ 55 \<le> exp 55" by simp
  also have "\<dots> \<le> exp c" using assms by simp
  finally have "inverse (exp c) \<le> inverse (2 ^ 55)"
    by (intro le_imp_inverse_le) simp_all
  then show ?thesis by (simp add: exp_minus powr_minus)
qed

text \<open>From \<open>55\<close> on the sigmoid is exactly \<open>1\<close>.\<close>

lemma sigmoid64_saturates:
  assumes "55 \<le> s"
  shows "sigmoid64 (Fin s) = Fin 1"
proof -
  define c where "c = max (- 500) (min 500 s)"
  have c: "55 \<le> c" "c \<le> 500" using assms by (simp_all add: c_def)
  have unf: "sigmoid64 (Fin s) = fdiv (Fin 1) (fadd (Fin 1) (fexp (Fin (- c))))"
    by (simp add: sigmoid64_def c_def)
  have "(2::real) powr real_of_int emin64 \<le> 2 powr (- 1000)"
    by (intro powr_mono) (simp_all add: emin64_def)
  moreover have "2 powr (- 1000) \<le> exp (- c)"
    using c by (intro exp_500_lower) simp
  ultimately have lo: "2 powr real_of_int emin64 \<le> exp (- c)" by linarith
  have "exp (- c) \<le> 1" using c by simp
  moreover have "(1::real) < 2 powr real_of_int 1023" by simp
  ultimately have hi: "exp (- c) < 2 powr real_of_int 1023" by linarith
  from round64_bounds [OF lo hi] obtain y1 where
    r1: "round64 (exp (- c)) = Fin y1" and p1: "0 < y1" and u1: "y1 \<le> 2 * exp (- c)"
    by (elim exE conjE)
  have "2 * (2::real) powr (- 55) < 2 powr (- 53)"
  proof -
    have "2 * (2::real) powr (- 55) = 2 powr 1 * 2 powr (- 55)" by simp
    also have "\<dots> = 2 powr (1 + - 55)" by (rule powr_add [symmetric])
    also have "\<dots> < 2 powr (- 53)" by (intro powr_less_mono) simp_all
    finally show ?thesis .
  qed
  then have "y1 < 2 powr (- 53)" using u1 exp_neg_small [OF c(1)] by linarith
  then have "round64 (1 + y1) = Fin 1" using p1 by (intro round64_one_plus) simp_all
  then show ?thesis using r1 by (simp add: unf)
qed


lemma aset64_length: "aset64 xs (length xs) v = xs @ [v]"
  by (simp add: aset64_def)

lemma for_each_layer64:
  "(\<And>h. h < n \<Longrightarrow> G h = Inr (g h)) \<Longrightarrow>
   for_each [0..<n] (\<lambda>h acc. bindE (G h) (\<lambda>s. Inr (aset64 acc h (K h s)))) []
     = Inr (map (\<lambda>h. K h (g h)) [0..<n])"
proof (induction n)
  case 0
  show ?case by simp
next
  case (Suc n)
  have "for_each [0..<n] (\<lambda>h acc. bindE (G h) (\<lambda>s. Inr (aset64 acc h (K h s)))) []
     = Inr (map (\<lambda>h. K h (g h)) [0..<n])" using Suc by simp
  moreover have "G n = Inr (g n)" using Suc.prems by simp
  ultimately show ?case
    using aset64_length [of "map (\<lambda>h. K h (g h)) [0..<n]" "K n (g n)"]
    by (simp add: for_each_append)
qed

lemma hiddenSum64_eq:
  assumes "length (weightsIH net) = inputSize net"
  shows "hiddenSum64 net xs h =
     Inr (fsum64 (to_f64 (aget (biasH net) h))
            (\<lambda>i. fmul (to_f64 (aget xs i)) (to_f64 (aget (weightsIH net ! i) h))) (inputSize net))"
  unfolding hiddenSum64_def fsum64_def
  using for_each_rows [of "inputSize net" "weightsIH net"
      "\<lambda>i row s. fadd s (fmul (to_f64 (aget xs i)) (to_f64 (aget row h)))"
      "to_f64 (aget (biasH net) h)"] assms
  by simp

lemma outputSum64_eq:
  assumes "length (weightsHO net) = hiddenSize net"
  shows "outputSum64 net hid k =
     Inr (fsum64 (to_f64 (aget (biasO net) k))
            (\<lambda>h. fmul (aget64 hid h) (to_f64 (aget (weightsHO net ! h) k))) (hiddenSize net))"
  unfolding outputSum64_def fsum64_def
  using for_each_rows [of "hiddenSize net" "weightsHO net"
      "\<lambda>h row s. fadd s (fmul (aget64 hid h) (to_f64 (aget row k)))"
      "to_f64 (aget (biasO net) k)"] assms
  by simp

lemma hiddenLayer64_eq:
  assumes "length (weightsIH net) = inputSize net"
  shows "hiddenLayer64 net xs = Inr (spec_hidden64 net xs)"
  unfolding hiddenLayer64_def spec_hidden64_def
  by (rule for_each_layer64) (simp add: hiddenSum64_eq [OF assms])

lemma outputLayer64_eq:
  assumes "length (weightsHO net) = hiddenSize net"
  shows "outputLayer64 net hid = Inr (spec_output64 net hid)"
  unfolding outputLayer64_def spec_output64_def
  by (rule for_each_layer64) (simp add: outputSum64_eq [OF assms])

lemma forwardPass64_eq:
  assumes "well_formed net" and "length xs = inputSize net"
  shows "forwardPass64 net xs = Inr (spec_output64 net (spec_hidden64 net xs))"
proof -
  have a: "length (weightsIH net) = inputSize net" and b: "length (weightsHO net) = hiddenSize net"
    using assms(1) by (simp_all add: well_formed_def)
  show ?thesis
    by (simp add: forwardPass64_def assms(2) hiddenLayer64_eq [OF a] outputLayer64_eq [OF b])
qed

lemma length_spec_hidden64 [simp]: "length (spec_hidden64 net xs) = hiddenSize net"
  by (simp add: spec_hidden64_def)

lemma length_spec_output64 [simp]: "length (spec_output64 net hid) = outputSize net"
  by (simp add: spec_output64_def)

lemma fsum64_Suc: "fsum64 b f (Suc n) = fadd (fsum64 b f n) (f n)"
  by (simp add: fsum64_def)

lemma fsum64_0: "fsum64 b f 0 = b"
  by (simp add: fsum64_def)

lemma fadd_Fin_defined: "s \<noteq> NotNum \<Longrightarrow> fadd s (Fin p) \<noteq> NotNum"
  by (cases s) simp_all

lemma fsum64_defined:
  "b \<noteq> NotNum \<Longrightarrow> (\<And>i. i < n \<Longrightarrow> \<exists>p. f i = Fin p) \<Longrightarrow> fsum64 b f n \<noteq> NotNum"
proof (induction n)
  case 0
  then show ?case by (simp add: fsum64_0)
next
  case (Suc n)
  have "fsum64 b f n \<noteq> NotNum" using Suc by simp
  moreover obtain p where "f n = Fin p" using Suc.prems(2) [of n] by auto
  ultimately show ?case by (simp add: fsum64_Suc fadd_Fin_defined)
qed

lemma fsum64_const:
  "round64 c = Fin c \<Longrightarrow> (\<And>i. i < n \<Longrightarrow> f i = Fin 0) \<Longrightarrow> fsum64 (Fin c) f n = Fin c"
  by (induction n) (simp_all add: fsum64_0 fsum64_Suc)

lemma fmul_finite:
  "\<bar>a * b\<bar> < 2 powr 1023 \<Longrightarrow> \<exists>p. fmul (Fin a) (Fin b) = Fin p"
  using round64_finite [of "a * b"] by simp

lemma to_f64_num: "is_num x \<Longrightarrow> to_f64 x = Fin (val x)"
  by (cases x) simp_all

lemma spec_hidden64_nth:
  assumes "h < hiddenSize net"
  shows "spec_hidden64 net xs ! h =
     sigmoid64 (fsum64 (to_f64 (aget (biasH net) h))
                 (\<lambda>i. fmul (to_f64 (aget xs i)) (to_f64 (aget (weightsIH net ! i) h)))
                 (inputSize net))"
  using assms by (simp add: spec_hidden64_def)

lemma spec_output64_nth:
  assumes "k < outputSize net"
  shows "spec_output64 net hid ! k =
     sigmoid64 (fsum64 (to_f64 (aget (biasO net) k))
                 (\<lambda>h. fmul (aget64 hid h) (to_f64 (aget (weightsHO net ! h) k)))
                 (hiddenSize net))"
  using assms by (simp add: spec_output64_def)

lemma sigmoid64_cases: "sigmoid64 x = NotNum \<or> (\<exists>r. sigmoid64 x = Fin r \<and> 0 < r \<and> r \<le> 1)"
proof (cases "x = NotNum")
  case True
  then show ?thesis by simp
next
  case False
  then show ?thesis using sigmoid64_range by simp
qed

lemma spec_output64_cases:
  "\<forall>y \<in> set (spec_output64 net hid). y = NotNum \<or> (\<exists>r. y = Fin r \<and> 0 < r \<and> r \<le> 1)"
  using sigmoid64_cases by (auto simp: spec_output64_def)

lemma spec_hidden64_unit:
  assumes "well_formed net" and "real_valued net" and "length xs = inputSize net"
    and "\<forall>x \<in> set xs. is_num x"
    and "\<forall>i < inputSize net. \<forall>h < hiddenSize net.
           \<bar>val (xs ! i) * val (weightsIH net ! i ! h)\<bar> < 2 powr 1023"
    and "h < hiddenSize net"
  shows "\<exists>r. spec_hidden64 net xs ! h = Fin r \<and> 0 < r \<and> r \<le> 1"
proof -
  have b: "to_f64 (aget (biasH net) h) \<noteq> NotNum"
  proof -
    have "is_num (biasH net ! h)" using assms(1,2,6) by (simp add: well_formed_def real_valued_def)
    then show ?thesis using assms(1,6) by (simp add: well_formed_def aget_nth to_f64_num)
  qed
  have "fsum64 (to_f64 (aget (biasH net) h))
          (\<lambda>i. fmul (to_f64 (aget xs i)) (to_f64 (aget (weightsIH net ! i) h)))
          (inputSize net) \<noteq> NotNum"
  proof (rule fsum64_defined [OF b])
    fix i assume i: "i < inputSize net"
    have x: "is_num (xs ! i)" using assms(3,4) i by simp
    have w: "is_num (weightsIH net ! i ! h)"
    proof (rule rows_nth_is_num)
      show "\<forall>row \<in> set (weightsIH net). \<forall>x \<in> set row. is_num x"
        using assms(2) by (simp add: real_valued_def)
      show "i < length (weightsIH net)" using assms(1) i by (simp add: well_formed_def)
      then show "h < length (weightsIH net ! i)" using assms(1,6) by (simp add: well_formed_def)
    qed
    have l: "h < length (weightsIH net ! i)" using assms(1,6) i by (simp add: well_formed_def)
    have "fmul (to_f64 (aget xs i)) (to_f64 (aget (weightsIH net ! i) h))
        = fmul (Fin (val (xs ! i))) (Fin (val (weightsIH net ! i ! h)))"
      using i assms(3) l x w by (simp add: aget_nth to_f64_num)
    moreover have "\<exists>p. fmul (Fin (val (xs ! i))) (Fin (val (weightsIH net ! i ! h))) = Fin p"
      using assms(5,6) i by (intro fmul_finite) simp
    ultimately show "\<exists>p. fmul (to_f64 (aget xs i)) (to_f64 (aget (weightsIH net ! i) h)) = Fin p"
      by simp
  qed
  from sigmoid64_range [OF this] show ?thesis by (simp only: spec_hidden64_nth [OF assms(6)])
qed

lemma spec_output64_unit:
  assumes "well_formed net" and "real_valued net" and "length hid = hiddenSize net"
    and "\<forall>h < hiddenSize net. \<exists>r. hid ! h = Fin r \<and> 0 < r \<and> r \<le> 1"
    and "\<forall>h < hiddenSize net. \<forall>k < outputSize net. \<bar>val (weightsHO net ! h ! k)\<bar> < 2 powr 1023"
    and "k < outputSize net"
  shows "\<exists>r. spec_output64 net hid ! k = Fin r \<and> 0 < r \<and> r \<le> 1"
proof -
  have b: "to_f64 (aget (biasO net) k) \<noteq> NotNum"
  proof -
    have "is_num (biasO net ! k)" using assms(1,2,6) by (simp add: well_formed_def real_valued_def)
    then show ?thesis using assms(1,6) by (simp add: well_formed_def aget_nth to_f64_num)
  qed
  have "fsum64 (to_f64 (aget (biasO net) k))
          (\<lambda>h. fmul (aget64 hid h) (to_f64 (aget (weightsHO net ! h) k)))
          (hiddenSize net) \<noteq> NotNum"
  proof (rule fsum64_defined [OF b])
    fix h assume h: "h < hiddenSize net"
    obtain r where r: "hid ! h = Fin r" and r0: "0 < r" and r1: "r \<le> 1"
      using assms(4) h by auto
    have w: "is_num (weightsHO net ! h ! k)"
    proof (rule rows_nth_is_num)
      show "\<forall>row \<in> set (weightsHO net). \<forall>x \<in> set row. is_num x"
        using assms(2) by (simp add: real_valued_def)
      show "h < length (weightsHO net)" using assms(1) h by (simp add: well_formed_def)
      then show "k < length (weightsHO net ! h)" using assms(1,6) by (simp add: well_formed_def)
    qed
    have l: "k < length (weightsHO net ! h)" using assms(1,6) h by (simp add: well_formed_def)
    have e: "fmul (aget64 hid h) (to_f64 (aget (weightsHO net ! h) k))
        = fmul (Fin r) (Fin (val (weightsHO net ! h ! k)))"
      using h assms(3) l r w by (simp add: aget_nth aget64_def to_f64_num)
    have "\<bar>r * val (weightsHO net ! h ! k)\<bar> = r * \<bar>val (weightsHO net ! h ! k)\<bar>"
      using r0 by (simp add: abs_mult)
    also have "\<dots> \<le> 1 * \<bar>val (weightsHO net ! h ! k)\<bar>"
      using r1 by (intro mult_right_mono) simp_all
    finally have le: "\<bar>r * val (weightsHO net ! h ! k)\<bar> \<le> \<bar>val (weightsHO net ! h ! k)\<bar>"
      by simp
    have "\<bar>val (weightsHO net ! h ! k)\<bar> < 2 powr 1023"
      using assms(5,6) h by simp
    then have "\<bar>r * val (weightsHO net ! h ! k)\<bar> < 2 powr 1023"
      using le by (rule le_less_trans [rotated])
    then have "\<exists>p. fmul (Fin r) (Fin (val (weightsHO net ! h ! k))) = Fin p"
      by (rule fmul_finite)
    then show "\<exists>p. fmul (aget64 hid h) (to_f64 (aget (weightsHO net ! h) k)) = Fin p"
      using e by simp
  qed
  from sigmoid64_range [OF this] show ?thesis by (simp only: spec_output64_nth [OF assms(6)])
qed

lemma saturatedNet_well_formed: "well_formed saturatedNet"
  by (simp add: well_formed_def saturatedNet_def zeroNet_def)

lemma saturatedNet_real_valued: "real_valued saturatedNet"
  by (simp add: real_valued_def saturatedNet_def zeroNet_def)

text \<open>An import of the text that holds these parameters gives this network.\<close>

lemma saturatedNet_imported:
  "fromJSON zeroNet
     \<lparr>p_weightsIH = replicate 4 (replicate 8 (Some 0)), p_weightsHO = replicate 8 [Some 0],
      p_biasH = replicate 8 (Some 0), p_biasO = [Some 64]\<rparr> = saturatedNet"
  by (simp add: fromJSON_def saturatedNet_def zeroNet_def)

lemma saturatedNet_hidden:
  "spec_hidden64 saturatedNet (replicate 4 (Num 0)) = replicate 8 (Fin (1 / 2))"
proof -
  have "\<And>h. h < 8 \<Longrightarrow>
    sigmoid64 (fsum64 (to_f64 (aget (biasH saturatedNet) h))
      (\<lambda>i. fmul (to_f64 (aget (replicate 4 (Num 0)) i)) (to_f64 (aget (weightsIH saturatedNet ! i) h)))
      4) = Fin (1 / 2)"
  proof -
    fix h :: nat assume h: "h < 8"
    have "fsum64 (Fin 0)
        (\<lambda>i. fmul (to_f64 (aget (replicate 4 (Num 0)) i))
                (to_f64 (aget (weightsIH saturatedNet ! i) h))) 4 = Fin 0"
      using h by (intro fsum64_const) (simp_all add: aget_def saturatedNet_def zeroNet_def)
    then show "sigmoid64 (fsum64 (to_f64 (aget (biasH saturatedNet) h))
      (\<lambda>i. fmul (to_f64 (aget (replicate 4 (Num 0)) i)) (to_f64 (aget (weightsIH saturatedNet ! i) h)))
      4) = Fin (1 / 2)"
      using h by (simp add: aget_def saturatedNet_def zeroNet_def sigmoid64_zero)
  qed
  then have "map (\<lambda>h. sigmoid64 (fsum64 (to_f64 (aget (biasH saturatedNet) h))
      (\<lambda>i. fmul (to_f64 (aget (replicate 4 (Num 0)) i)) (to_f64 (aget (weightsIH saturatedNet ! i) h)))
      4)) [0..<8]
      = map (\<lambda>h. Fin (1 / 2)) [0..<8]"
    by (intro map_cong) simp_all
  then show ?thesis
    by (simp add: spec_hidden64_def saturatedNet_def zeroNet_def map_replicate_const)
qed

lemma saturatedNet_output:
  "spec_output64 saturatedNet (replicate 8 (Fin (1 / 2))) = [Fin 1]"
proof -
  have "fsum64 (Fin 64)
      (\<lambda>h. fmul (aget64 (replicate 8 (Fin (1 / 2))) h) (to_f64 (aget (weightsHO saturatedNet ! h) 0)))
      8 = Fin 64"
    by (intro fsum64_const) (simp_all add: aget_def aget64_def saturatedNet_def zeroNet_def)
  then show ?thesis
    by (simp add: spec_output64_def saturatedNet_def zeroNet_def aget_def sigmoid64_saturates [of 64])
qed

text \<open>
  Claim C5, as stated, fails in binary64: with the output bias at \<open>64\<close> and every weight
  at \<open>0\<close> the pre-activation of the output unit is \<open>64\<close>; \<open>exp (- 64)\<close> is below half the
  gap between \<open>1\<close> and the next double, so that \<open>1 + exp (- 64)\<close> is rounded to \<open>1\<close>, and the
  output is exactly \<open>1\<close>, not below it.
\<close>

theorem forwardPass_range_counterexample:
  "forwardPass64 saturatedNet [Num 0, Num 0, Num 0, Num 0] = Inr [Fin 1]"
proof -
  have l: "length (replicate 4 (Num 0)) = inputSize saturatedNet"
    by (simp add: saturatedNet_def zeroNet_def)
  show ?thesis
    unfolding zero_inputs
    by (simp add: forwardPass64_eq [OF saturatedNet_well_formed l] saturatedNet_hidden
          saturatedNet_output)
qed

text \<open>
  Claim C5, amended. On a well-formed network and an input of length \<^verbatim>\<open>inputSize\<close>,
  \<^verbatim>\<open>forwardPass\<close> computed in binary64 returns a vector of length \<^verbatim>\<open>outputSize\<close> whose every
  element is \<open>NaN\<close> or a number greater than \<open>0\<close> and at most \<open>1\<close>. When the parameters and
  the inputs are real numbers, no product of an input and a weight overflows and the
  weights of the output layer are in the range of the doubles, every element is a number
  greater than \<open>0\<close> and at most \<open>1\<close>. The bound \<open>1\<close> is reached: the sigmoid of a double
  from \<open>55\<close> on is exactly \<open>1\<close>.
\<close>

theorem forwardPass64_range:
  assumes "well_formed net" and "length xs = inputSize net"
  shows "\<exists>out. forwardPass64 net xs = Inr out \<and> length out = outputSize net \<and>
           (\<forall>y \<in> set out. y = NotNum \<or> (\<exists>r. y = Fin r \<and> 0 < r \<and> r \<le> 1)) \<and>
           (real_valued net \<and> (\<forall>x \<in> set xs. is_num x) \<and>
            (\<forall>i < inputSize net. \<forall>h < hiddenSize net.
               \<bar>val (xs ! i) * val (weightsIH net ! i ! h)\<bar> < 2 powr 1023) \<and>
            (\<forall>h < hiddenSize net. \<forall>k < outputSize net.
               \<bar>val (weightsHO net ! h ! k)\<bar> < 2 powr 1023) \<longrightarrow>
              (\<forall>y \<in> set out. \<exists>r. y = Fin r \<and> 0 < r \<and> r \<le> 1)) \<and>
           (\<forall>s. 55 \<le> s \<longrightarrow> sigmoid64 (Fin s) = Fin 1)"
proof -
  let ?hid = "spec_hidden64 net xs"
  let ?out = "spec_output64 net ?hid"
  have 1: "forwardPass64 net xs = Inr ?out" by (rule forwardPass64_eq [OF assms])
  have 2: "length ?out = outputSize net" by simp
  have 3: "\<forall>y \<in> set ?out. y = NotNum \<or> (\<exists>r. y = Fin r \<and> 0 < r \<and> r \<le> 1)"
    by (rule spec_output64_cases)
  have 4: "real_valued net \<and> (\<forall>x \<in> set xs. is_num x) \<and>
            (\<forall>i < inputSize net. \<forall>h < hiddenSize net.
               \<bar>val (xs ! i) * val (weightsIH net ! i ! h)\<bar> < 2 powr 1023) \<and>
            (\<forall>h < hiddenSize net. \<forall>k < outputSize net.
               \<bar>val (weightsHO net ! h ! k)\<bar> < 2 powr 1023) \<longrightarrow>
              (\<forall>y \<in> set ?out. \<exists>r. y = Fin r \<and> 0 < r \<and> r \<le> 1)"
  proof (intro impI, elim conjE)
    assume rv: "real_valued net" and xn: "\<forall>x \<in> set xs. is_num x"
      and p1: "\<forall>i < inputSize net. \<forall>h < hiddenSize net.
               \<bar>val (xs ! i) * val (weightsIH net ! i ! h)\<bar> < 2 powr 1023"
      and p2: "\<forall>h < hiddenSize net. \<forall>k < outputSize net.
               \<bar>val (weightsHO net ! h ! k)\<bar> < 2 powr 1023"
    have hid: "\<forall>h < hiddenSize net. \<exists>r. ?hid ! h = Fin r \<and> 0 < r \<and> r \<le> 1"
      using spec_hidden64_unit [OF assms(1) rv assms(2) xn p1] by simp
    have lh: "length ?hid = hiddenSize net" by simp
    show "\<forall>y \<in> set ?out. \<exists>r. y = Fin r \<and> 0 < r \<and> r \<le> 1"
    proof
      fix y assume "y \<in> set ?out"
      then obtain k where k: "k < outputSize net" and y: "y = ?out ! k"
        by (auto simp: in_set_conv_nth)
      from spec_output64_unit [OF assms(1) rv lh hid p2 k] y
      show "\<exists>r. y = Fin r \<and> 0 < r \<and> r \<le> 1" by simp
    qed
  qed
  have 5: "\<forall>s. 55 \<le> s \<longrightarrow> sigmoid64 (Fin s) = Fin 1"
    by (simp add: sigmoid64_saturates)
  show ?thesis
    apply (rule exI [of _ ?out])
    using 1 2 3 4 5 apply (intro conjI)
        apply assumption+
    done
qed

theorem forwardPass64_range_witness:
  "well_formed saturatedNet \<and> length [Num 0, Num 0, Num 0, Num 0] = inputSize saturatedNet \<and>
   real_valued saturatedNet \<and> list_all is_num [Num 0, Num 0, Num 0, Num 0] \<and>
   (\<exists>out. forwardPass64 saturatedNet [Num 0, Num 0, Num 0, Num 0] = Inr out \<and> length out = 1 \<and>
      list_all (\<lambda>y. \<exists>r. y = Fin r \<and> 0 < r \<and> r \<le> 1) out)"
proof -
  have h1: "well_formed saturatedNet" by (rule saturatedNet_well_formed)
  have h2: "length [Num 0, Num 0, Num 0, Num 0] = inputSize saturatedNet"
    by (simp add: saturatedNet_def zeroNet_def)
  have h3: "real_valued saturatedNet" by (rule saturatedNet_real_valued)
  have h4: "\<forall>x \<in> set [Num 0, Num 0, Num 0, Num 0]. is_num x" by simp
  have z: "\<And>i. i < 4 \<Longrightarrow> val ([Num 0, Num 0, Num 0, Num 0] ! i) = 0"
    unfolding zero_inputs by simp
  have h5: "\<forall>i < inputSize saturatedNet. \<forall>h < hiddenSize saturatedNet.
      \<bar>val ([Num 0, Num 0, Num 0, Num 0] ! i) * val (weightsIH saturatedNet ! i ! h)\<bar> < 2 powr 1023"
    using z by (simp add: saturatedNet_def zeroNet_def)
  have h6: "\<forall>h < hiddenSize saturatedNet. \<forall>k < outputSize saturatedNet.
      \<bar>val (weightsHO saturatedNet ! h ! k)\<bar> < 2 powr 1023"
    by (simp add: saturatedNet_def zeroNet_def)
  from forwardPass64_range [OF h1 h2] obtain out where
    a: "forwardPass64 saturatedNet [Num 0, Num 0, Num 0, Num 0] = Inr out"
    and b: "length out = outputSize saturatedNet"
    and c: "real_valued saturatedNet \<and> (\<forall>x \<in> set [Num 0, Num 0, Num 0, Num 0]. is_num x) \<and>
            (\<forall>i < inputSize saturatedNet. \<forall>h < hiddenSize saturatedNet.
               \<bar>val ([Num 0, Num 0, Num 0, Num 0] ! i) * val (weightsIH saturatedNet ! i ! h)\<bar>
                 < 2 powr 1023) \<and>
            (\<forall>h < hiddenSize saturatedNet. \<forall>k < outputSize saturatedNet.
               \<bar>val (weightsHO saturatedNet ! h ! k)\<bar> < 2 powr 1023) \<longrightarrow>
              (\<forall>y \<in> set out. \<exists>r. y = Fin r \<and> 0 < r \<and> r \<le> 1)"
    by (elim exE conjE)
  have d: "\<forall>y \<in> set out. \<exists>r. y = Fin r \<and> 0 < r \<and> r \<le> 1"
    by (rule c [THEN mp, OF conjI [OF h3 conjI [OF h4 conjI [OF h5 h6]]]])
  have b': "length out = 1" using b by (simp add: saturatedNet_def zeroNet_def)
  have d': "list_all (\<lambda>y. \<exists>r. y = Fin r \<and> 0 < r \<and> r \<le> 1) out"
    using d by (simp add: list_all_iff)
  have h4': "list_all is_num [Num 0, Num 0, Num 0, Num 0]" by simp
  show ?thesis
    apply (intro conjI h1 h2 h3 h4')
    apply (rule exI [of _ out])
    using a b' d' apply (intro conjI)
      apply assumption+
    done
qed

section \<open>The training step\<close>

lemma outputErrorsLoop_gen:
  "foldl (\<lambda>(outputErrors, mse) k.
            let error = jsub (aget targets k) (aget outputs k)
            in (aset outputErrors k (jmul error (sigmoidDerivative (aget outputs k))),
                jadd mse (jmul error error)))
     ([], Num 0) [0..<n]
   = (map (\<lambda>k. jmul (jsub (aget targets k) (aget outputs k)) (sigmoidDerivative (aget outputs k))) [0..<n],
      jsum (Num 0) (\<lambda>k. jmul (jsub (aget targets k) (aget outputs k))
                            (jsub (aget targets k) (aget outputs k))) n)"
proof (induction n)
  case 0
  show ?case by (simp add: jsum_0)
next
  case (Suc n)
  show ?case
    using aset_length [of "map (\<lambda>k. jmul (jsub (aget targets k) (aget outputs k))
                                 (sigmoidDerivative (aget outputs k))) [0..<n]"]
      Suc
    by (simp add: Let_def jsum_Suc)
qed

lemma hiddenErrorSum_eq:
  assumes "h < length (weightsHO net)"
  shows "hiddenErrorSum net oe h =
     Inr (jsum (Num 0) (\<lambda>k. jmul (aget oe k) (aget (weightsHO net ! h) k)) (outputSize net))"
proof -
  have "\<And>s0. for_each [0..<n]
       (\<lambda>k error. bindE (rowget (weightsHO net) h)
          (\<lambda>row. Inr (jadd error (jmul (aget oe k) (aget row k))))) s0
     = Inr (jsum s0 (\<lambda>k. jmul (aget oe k) (aget (weightsHO net ! h) k)) n)" for n
    using assms by (induction n) (simp_all add: jsum_0 jsum_Suc for_each_append rowget_def)
  then show ?thesis by (simp add: hiddenErrorSum_def)
qed

lemma hiddenErrorsLoop_eq:
  assumes "length (weightsHO net) = hiddenSize net"
  shows "hiddenErrorsLoop net oe hidden =
     Inr (map (\<lambda>h. jmul (jsum (Num 0) (\<lambda>k. jmul (aget oe k) (aget (weightsHO net ! h) k)) (outputSize net))
                      (sigmoidDerivative (aget hidden h))) [0..<hiddenSize net])"
  unfolding hiddenErrorsLoop_def
  by (rule for_each_layer) (simp add: hiddenErrorSum_eq assms)

lemma addAt_row:
  assumes "r < length W" and "c < length (W ! r)"
  shows "addAt W r c v = Inr (W[r := (W ! r)[c := jadd (W ! r ! c) v]])"
  using assms by (simp add: addAt_def rowget_def aset_def aget_def)

lemma row_loop:
  assumes "r < length W" and "length (W ! r) = C" and "k \<le> C"
  shows "for_each [0..<k] (\<lambda>c w. addAt w r c (f c)) W =
     Inr (W[r := map (\<lambda>c. if c < k then jadd (W ! r ! c) (f c) else W ! r ! c) [0..<C]])"
  using assms(3)
proof (induction k)
  case 0
  have "map (\<lambda>c. W ! r ! c) [0..<C] = W ! r" using assms(2) map_nth [of "W ! r"] by simp
  then show ?case by simp
next
  case (Suc k)
  let ?rowk = "map (\<lambda>c. if c < k then jadd (W ! r ! c) (f c) else W ! r ! c) [0..<C]"
  let ?Wk = "W[r := ?rowk]"
  have ih: "for_each [0..<k] (\<lambda>c w. addAt w r c (f c)) W = Inr ?Wk" using Suc by simp
  have k: "k < C" using Suc.prems by simp
  have a: "addAt ?Wk r k (f k) = Inr (?Wk[r := (?Wk ! r)[k := jadd (?Wk ! r ! k) (f k)]])"
    by (rule addAt_row) (simp_all add: assms(1) k)
  have b: "?Wk ! r = ?rowk" using assms(1) by simp
  have c: "?rowk[k := jadd (?rowk ! k) (f k)] =
           map (\<lambda>c. if c < Suc k then jadd (W ! r ! c) (f c) else W ! r ! c) [0..<C]"
    using k by (intro nth_equalityI) (auto simp: nth_list_update less_Suc_eq)
  show ?case
    by (simp add: for_each_append ih a b c)
qed

lemma row_loop_full:
  assumes "r < length W" and "length (W ! r) = C"
  shows "for_each [0..<C] (\<lambda>c w. addAt w r c (f c)) W =
     Inr (W[r := map (\<lambda>c. jadd (W ! r ! c) (f c)) [0..<C]])"
proof -
  have "map (\<lambda>c. if c < C then jadd (W ! r ! c) (f c) else W ! r ! c) [0..<C]
      = map (\<lambda>c. jadd (W ! r ! c) (f c)) [0..<C]" by simp
  with row_loop [OF assms le_refl, where f = f] show ?thesis by (simp only:)
qed

lemma matrix_loop:
  assumes "length W = R" and "\<forall>row \<in> set W. length row = C" and "k \<le> R"
  shows "for_each [0..<k] (\<lambda>r. for_each [0..<C] (\<lambda>c w. addAt w r c (f r c))) W =
     Inr (map (\<lambda>r. if r < k then map (\<lambda>c. jadd (W ! r ! c) (f r c)) [0..<C] else W ! r) [0..<R])"
  using assms(3)
proof (induction k)
  case 0
  have "map (\<lambda>r. W ! r) [0..<R] = W" using assms(1) map_nth [of W] by simp
  then show ?case by simp
next
  case (Suc k)
  let ?Wk = "map (\<lambda>r. if r < k then map (\<lambda>c. jadd (W ! r ! c) (f r c)) [0..<C] else W ! r) [0..<R]"
  have ih: "for_each [0..<k] (\<lambda>r. for_each [0..<C] (\<lambda>c w. addAt w r c (f r c))) W = Inr ?Wk"
    using Suc by simp
  have k: "k < R" using Suc.prems by simp
  have r: "?Wk ! k = W ! k" using k by simp
  have l: "length (?Wk ! k) = C" using k assms(1,2) by (simp add: r)
  have kl: "k < length ?Wk" using k by simp
  have step: "for_each [0..<C] (\<lambda>c w. addAt w k c (f k c)) ?Wk =
     Inr (?Wk[k := map (\<lambda>c. jadd (?Wk ! k ! c) (f k c)) [0..<C]])"
    by (rule row_loop_full [OF kl l])
  have e: "?Wk[k := map (\<lambda>c. jadd (?Wk ! k ! c) (f k c)) [0..<C]] =
     map (\<lambda>r. if r < Suc k then map (\<lambda>c. jadd (W ! r ! c) (f r c)) [0..<C] else W ! r) [0..<R]"
    unfolding r using k by (intro nth_equalityI) (auto simp: nth_list_update less_Suc_eq)
  show ?case by (simp add: for_each_append ih step e)
qed

lemma matrix_loop_full:
  assumes "length W = R" and "\<forall>row \<in> set W. length row = C"
  shows "for_each [0..<R] (\<lambda>r. for_each [0..<C] (\<lambda>c w. addAt w r c (f r c))) W =
     Inr (map (\<lambda>r. map (\<lambda>c. jadd (W ! r ! c) (f r c)) [0..<C]) [0..<R])"
proof -
  have "map (\<lambda>r. if r < R then map (\<lambda>c. jadd (W ! r ! c) (f r c)) [0..<C] else W ! r) [0..<R]
      = map (\<lambda>r. map (\<lambda>c. jadd (W ! r ! c) (f r c)) [0..<C]) [0..<R]" by simp
  with matrix_loop [OF assms le_refl, where f = f] show ?thesis by (simp only:)
qed

lemma bias_loop:
  assumes "length b = n" and "k \<le> n"
  shows "foldl (\<lambda>b j. aset b j (jadd (aget b j) (f j))) b [0..<k] =
     map (\<lambda>j. if j < k then jadd (b ! j) (f j) else b ! j) [0..<n]"
  using assms(2)
proof (induction k)
  case 0
  show ?case using assms(1) map_nth [of b] by simp
next
  case (Suc k)
  let ?bk = "map (\<lambda>j. if j < k then jadd (b ! j) (f j) else b ! j) [0..<n]"
  have ih: "foldl (\<lambda>b j. aset b j (jadd (aget b j) (f j))) b [0..<k] = ?bk" using Suc by simp
  have k: "k < n" using Suc.prems by simp
  have "aset ?bk k (jadd (aget ?bk k) (f k)) =
        map (\<lambda>j. if j < Suc k then jadd (b ! j) (f j) else b ! j) [0..<n]"
    using k by (intro nth_equalityI) (auto simp: aset_def aget_def nth_list_update less_Suc_eq)
  then show ?case by (simp add: ih)
qed

lemma bias_loop_full:
  assumes "length b = n"
  shows "foldl (\<lambda>b j. aset b j (jadd (aget b j) (f j))) b [0..<n] =
     map (\<lambda>j. jadd (b ! j) (f j)) [0..<n]"
proof -
  have "map (\<lambda>j. if j < n then jadd (b ! j) (f j) else b ! j) [0..<n]
      = map (\<lambda>j. jadd (b ! j) (f j)) [0..<n]" by simp
  with bias_loop [OF assms le_refl, where f = f] show ?thesis by (simp only:)
qed

lemma outputErrorsLoop_eq:
  "outputErrorsLoop net targets out =
     (spec_outputErrors targets out (outputSize net), spec_squaredError targets out (outputSize net))"
  unfolding outputErrorsLoop_def spec_outputErrors_def spec_squaredError_def
  by (rule outputErrorsLoop_gen)

lemma hiddenErrorsLoop_spec:
  assumes "length (weightsHO net) = hiddenSize net"
  shows "hiddenErrorsLoop net oe hid = Inr (spec_hiddenErrors net oe hid)"
  unfolding spec_hiddenErrors_def by (rule hiddenErrorsLoop_eq [OF assms])

lemma updateWeightsHO_eq:
  assumes "length (weightsHO net) = hiddenSize net"
    and "\<forall>row \<in> set (weightsHO net). length row = outputSize net"
  shows "updateWeightsHO net lr oe hid =
     Inr (map (\<lambda>h. map (\<lambda>k. jadd (weightsHO net ! h ! k) (jmul (jmul lr (aget oe k)) (aget hid h)))
                      [0..<outputSize net]) [0..<hiddenSize net])"
  unfolding updateWeightsHO_def
  by (rule matrix_loop_full [OF assms])

lemma updateWeightsIH_eq:
  assumes "length (weightsIH net) = inputSize net"
    and "\<forall>row \<in> set (weightsIH net). length row = hiddenSize net"
  shows "updateWeightsIH net lr he xs =
     Inr (map (\<lambda>i. map (\<lambda>h. jadd (weightsIH net ! i ! h) (jmul (jmul lr (aget he h)) (aget xs i)))
                      [0..<hiddenSize net]) [0..<inputSize net])"
  unfolding updateWeightsIH_def
  by (rule matrix_loop_full [OF assms])

lemma updateBiasO_eq:
  assumes "length (biasO net) = outputSize net"
  shows "updateBiasO net lr oe =
     map (\<lambda>k. jadd (biasO net ! k) (jmul lr (aget oe k))) [0..<outputSize net]"
  unfolding updateBiasO_def by (rule bias_loop_full [OF assms])

lemma updateBiasH_eq:
  assumes "length (biasH net) = hiddenSize net"
  shows "updateBiasH net lr he =
     map (\<lambda>h. jadd (biasH net ! h) (jmul lr (aget he h))) [0..<hiddenSize net]"
  unfolding updateBiasH_def by (rule bias_loop_full [OF assms])

lemma spec_hiddenErrors_caches [simp]:
  "spec_hiddenErrors (net\<lparr>lastInputs := a, lastHidden := b, lastOutput := c\<rparr>) oe hid
     = spec_hiddenErrors net oe hid"
  by (simp add: spec_hiddenErrors_def)

lemma train_eq:
  assumes "well_formed net" and "length xs = inputSize net"
  shows "train net xs targets lr = Inr (spec_train net xs targets lr)"
proof -
  let ?hid = "spec_hidden net xs"
  let ?out = "spec_output net ?hid"
  let ?net1 = "net\<lparr>lastInputs := Some xs, lastHidden := Some ?hid, lastOutput := Some ?out\<rparr>"
  let ?oe = "spec_outputErrors targets ?out (outputSize net)"
  let ?he = "spec_hiddenErrors net ?oe ?hid"
  have w: "length (weightsIH ?net1) = inputSize ?net1"
      "\<forall>row \<in> set (weightsIH ?net1). length row = hiddenSize ?net1"
      "length (weightsHO ?net1) = hiddenSize ?net1"
      "\<forall>row \<in> set (weightsHO ?net1). length row = outputSize ?net1"
      "length (biasH ?net1) = hiddenSize ?net1"
      "length (biasO ?net1) = outputSize ?net1"
    using assms(1) by (simp_all add: well_formed_def)
  have f: "forwardPass net xs = Inr (?out, ?net1)" by (rule forwardPass_eq [OF assms])
  have 1: "outputErrorsLoop ?net1 targets ?out =
      (?oe, spec_squaredError targets ?out (outputSize net))"
    by (simp add: outputErrorsLoop_eq)
  have 2: "hiddenErrorsLoop ?net1 ?oe ?hid = Inr ?he"
    using hiddenErrorsLoop_spec [OF w(3)] by simp
  note 3 = updateWeightsHO_eq [OF w(3,4), of lr ?oe ?hid]
  note 4 = updateBiasO_eq [OF w(6), of lr ?oe]
  note 5 = updateWeightsIH_eq [OF w(1,2), of lr ?he xs]
  note 6 = updateBiasH_eq [OF w(5), of lr ?he]
  show ?thesis
    unfolding train_def f
    by (simp add: 1 2 3 4 5 6 spec_train_def Let_def)
qed

lemma spec_train_well_formed:
  "well_formed (snd (spec_train net xs targets lr))"
  by (simp add: spec_train_def Let_def well_formed_def)

lemma spec_train_sizes:
  "inputSize (snd (spec_train net xs targets lr)) = inputSize net"
  "hiddenSize (snd (spec_train net xs targets lr)) = hiddenSize net"
  "outputSize (snd (spec_train net xs targets lr)) = outputSize net"
  by (simp_all add: spec_train_def Let_def)

lemma sigmoidDerivative_unfold: "sigmoidDerivative y = jmul y (jsub (Num 1) y)"
  by (simp add: sigmoidDerivative_def)

lemma spec_outputErrors_nth:
  assumes "k < n" and "n \<le> length out"
  shows "spec_outputErrors targets out n ! k =
     jmul (jsub (aget targets k) (out ! k)) (jmul (out ! k) (jsub (Num 1) (out ! k)))"
  using assms by (simp add: spec_outputErrors_def sigmoidDerivative_def aget_nth)

lemma spec_hiddenErrors_nth:
  assumes "well_formed net" and "length hid = hiddenSize net" and "length oe = outputSize net"
    and "h < hiddenSize net"
  shows "spec_hiddenErrors net oe hid ! h =
     jmul (jsum (Num 0) (\<lambda>k. jmul (oe ! k) (weightsHO net ! h ! k)) (outputSize net))
          (jmul (hid ! h) (jsub (Num 1) (hid ! h)))"
proof -
  have r: "length (weightsHO net ! h) = outputSize net"
    using assms(1,4) by (simp add: well_formed_def)
  have "jsum (Num 0) (\<lambda>k. jmul (aget oe k) (aget (weightsHO net ! h) k)) (outputSize net)
      = jsum (Num 0) (\<lambda>k. jmul (oe ! k) (weightsHO net ! h ! k)) (outputSize net)"
    using assms(3) r by (intro jsum_cong) (simp add: aget_nth)
  then show ?thesis
    using assms(2,4) by (simp add: spec_hiddenErrors_def sigmoidDerivative_def aget_nth)
qed

lemma spec_squaredError_real:
  assumes "n \<le> length targets" and "n \<le> length out"
    and "\<forall>x \<in> set targets. is_num x" and "\<forall>x \<in> set out. is_num x"
  shows "spec_squaredError targets out n = Num (\<Sum>k<n. (val (targets ! k) - val (out ! k))\<^sup>2)"
proof -
  have "jsum (Num 0) (\<lambda>k. jmul (jsub (aget targets k) (aget out k))
                            (jsub (aget targets k) (aget out k))) n
      = jsum (Num 0) (\<lambda>k. Num ((val (targets ! k) - val (out ! k))\<^sup>2)) n"
  proof (rule jsum_cong)
    fix k assume k: "k < n"
    have t: "aget targets k = Num (val (targets ! k))"
      using assms(1,3) k by (simp add: aget_nth is_num_val [symmetric])
    have o: "aget out k = Num (val (out ! k))"
      using assms(2,4) k by (simp add: aget_nth is_num_val [symmetric])
    show "jmul (jsub (aget targets k) (aget out k)) (jsub (aget targets k) (aget out k))
        = Num ((val (targets ! k) - val (out ! k))\<^sup>2)"
      by (simp add: t o power2_eq_square)
  qed
  then show ?thesis by (simp add: spec_squaredError_def jsum_Num)
qed

lemma spec_output_is_num:
  assumes "well_formed net" and "real_valued net" and "length hid = hiddenSize net"
    and "\<forall>x \<in> set hid. is_num x"
  shows "\<forall>x \<in> set (spec_output net hid). is_num x"
proof
  fix x assume "x \<in> set (spec_output net hid)"
  then obtain k where "k < outputSize net" and "x = spec_output net hid ! k"
    by (auto simp: in_set_conv_nth)
  then show "is_num x" using spec_output_unit [OF assms, of k] by auto
qed

text \<open>
  Claim C1. On a well-formed network and an input of length \<^verbatim>\<open>inputSize\<close>, for every
  target vector and learning rate, \<^verbatim>\<open>train\<close> performs the forward pass and returns with
  parameters updated by exactly: \<open>oe k = (target k - out k) * (out k * (1 - out k))\<close>;
  \<open>he h = (\<Sum>k. oe k * weightsHO h k) * (hid h * (1 - hid h))\<close> with the weights before
  the update; \<open>weightsHO h k += lr * oe k * hid h\<close>; \<open>biasO k += lr * oe k\<close>;
  \<open>weightsIH i h += lr * he h * input i\<close>; \<open>biasH h += lr * he h\<close>. The dimensions
  are kept and the caches are those of the forward pass. The result is the sum of the
  squared errors divided by \<^verbatim>\<open>outputSize\<close>; when there is at least one output unit and
  parameters, inputs and targets are real numbers, it is the real mean of the squared
  errors, hence at least 0.
\<close>

theorem train_backpropagation:
  assumes "well_formed net" and "length xs = inputSize net"
  shows "\<exists>hid out oe he mse net'.
     forwardPass net xs =
       Inr (out, net\<lparr>lastInputs := Some xs, lastHidden := Some hid, lastOutput := Some out\<rparr>) \<and>
     train net xs targets lr = Inr (mse, net') \<and>
     length oe = outputSize net \<and> length he = hiddenSize net \<and>
     (\<forall>k < outputSize net.
        oe ! k = jmul (jsub (aget targets k) (out ! k)) (jmul (out ! k) (jsub (Num 1) (out ! k)))) \<and>
     (\<forall>h < hiddenSize net.
        he ! h = jmul (jsum (Num 0) (\<lambda>k. jmul (oe ! k) (weightsHO net ! h ! k)) (outputSize net))
                      (jmul (hid ! h) (jsub (Num 1) (hid ! h)))) \<and>
     (\<forall>h < hiddenSize net. \<forall>k < outputSize net.
        weightsHO net' ! h ! k = jadd (weightsHO net ! h ! k) (jmul (jmul lr (oe ! k)) (hid ! h))) \<and>
     (\<forall>k < outputSize net. biasO net' ! k = jadd (biasO net ! k) (jmul lr (oe ! k))) \<and>
     (\<forall>i < inputSize net. \<forall>h < hiddenSize net.
        weightsIH net' ! i ! h = jadd (weightsIH net ! i ! h) (jmul (jmul lr (he ! h)) (xs ! i))) \<and>
     (\<forall>h < hiddenSize net. biasH net' ! h = jadd (biasH net ! h) (jmul lr (he ! h))) \<and>
     well_formed net' \<and> inputSize net' = inputSize net \<and> hiddenSize net' = hiddenSize net \<and>
     outputSize net' = outputSize net \<and>
     lastInputs net' = Some xs \<and> lastHidden net' = Some hid \<and> lastOutput net' = Some out \<and>
     mse = jdiv (jsum (Num 0) (\<lambda>k. jmul (jsub (aget targets k) (aget out k))
                                      (jsub (aget targets k) (aget out k))) (outputSize net))
                (Num (real (outputSize net))) \<and>
     (0 < outputSize net \<and> real_valued net \<and> (\<forall>x \<in> set xs. is_num x) \<and>
      outputSize net \<le> length targets \<and> (\<forall>x \<in> set targets. is_num x) \<longrightarrow>
        mse = Num ((\<Sum>k<outputSize net. (val (targets ! k) - val (out ! k))\<^sup>2)
                     / real (outputSize net)) \<and>
        0 \<le> val mse)"
proof -
  let ?hid = "spec_hidden net xs"
  let ?out = "spec_output net ?hid"
  let ?oe = "spec_outputErrors targets ?out (outputSize net)"
  let ?he = "spec_hiddenErrors net ?oe ?hid"
  let ?mse = "fst (spec_train net xs targets lr)"
  let ?net' = "snd (spec_train net xs targets lr)"
  have c1: "forwardPass net xs =
       Inr (?out, net\<lparr>lastInputs := Some xs, lastHidden := Some ?hid, lastOutput := Some ?out\<rparr>)"
    by (rule forwardPass_eq [OF assms])
  have c2: "train net xs targets lr = Inr (?mse, ?net')"
    by (simp add: train_eq [OF assms])
  have c3: "length ?oe = outputSize net" by (simp add: spec_outputErrors_def)
  have c4: "length ?he = hiddenSize net" by (simp add: spec_hiddenErrors_def)
  have c5: "\<forall>k < outputSize net.
        ?oe ! k = jmul (jsub (aget targets k) (?out ! k)) (jmul (?out ! k) (jsub (Num 1) (?out ! k)))"
    by (simp add: spec_outputErrors_nth)
  have c6: "\<forall>h < hiddenSize net.
        ?he ! h = jmul (jsum (Num 0) (\<lambda>k. jmul (?oe ! k) (weightsHO net ! h ! k)) (outputSize net))
                      (jmul (?hid ! h) (jsub (Num 1) (?hid ! h)))"
    using spec_hiddenErrors_nth [OF assms(1) _ c3] by simp
  have c7: "\<forall>h < hiddenSize net. \<forall>k < outputSize net.
        weightsHO ?net' ! h ! k = jadd (weightsHO net ! h ! k) (jmul (jmul lr (?oe ! k)) (?hid ! h))"
    using c3 by (simp add: spec_train_def Let_def aget_nth)
  have c8: "\<forall>k < outputSize net. biasO ?net' ! k = jadd (biasO net ! k) (jmul lr (?oe ! k))"
    using c3 by (simp add: spec_train_def Let_def aget_nth)
  have c9: "\<forall>i < inputSize net. \<forall>h < hiddenSize net.
        weightsIH ?net' ! i ! h = jadd (weightsIH net ! i ! h) (jmul (jmul lr (?he ! h)) (xs ! i))"
    using c4 assms(2) by (simp add: spec_train_def Let_def aget_nth)
  have c10: "\<forall>h < hiddenSize net. biasH ?net' ! h = jadd (biasH net ! h) (jmul lr (?he ! h))"
    using c4 by (simp add: spec_train_def Let_def aget_nth)
  have c11: "well_formed ?net'" by (rule spec_train_well_formed)
  have c12: "inputSize ?net' = inputSize net" and c13: "hiddenSize ?net' = hiddenSize net"
    and c14: "outputSize ?net' = outputSize net"
    by (simp_all add: spec_train_sizes)
  have c15: "lastInputs ?net' = Some xs" and c16: "lastHidden ?net' = Some ?hid"
    and c17: "lastOutput ?net' = Some ?out"
    by (simp_all add: spec_train_def Let_def)
  have c18: "?mse = jdiv (jsum (Num 0) (\<lambda>k. jmul (jsub (aget targets k) (aget ?out k))
                                      (jsub (aget targets k) (aget ?out k))) (outputSize net))
                (Num (real (outputSize net)))"
    by (simp add: spec_train_def Let_def spec_squaredError_def)
  have c19: "0 < outputSize net \<and> real_valued net \<and> (\<forall>x \<in> set xs. is_num x) \<and>
      outputSize net \<le> length targets \<and> (\<forall>x \<in> set targets. is_num x) \<longrightarrow>
        ?mse = Num ((\<Sum>k<outputSize net. (val (targets ! k) - val (?out ! k))\<^sup>2)
                     / real (outputSize net)) \<and>
        0 \<le> val ?mse"
  proof (intro impI, elim conjE)
    assume pos: "0 < outputSize net" and rv: "real_valued net" and xn: "\<forall>x \<in> set xs. is_num x"
      and tl: "outputSize net \<le> length targets" and tn: "\<forall>x \<in> set targets. is_num x"
    have hn: "\<forall>x \<in> set ?hid. is_num x"
      by (rule spec_hidden_is_num [OF assms(1) rv assms(2) xn])
    have "length ?hid = hiddenSize net" by simp
    from spec_output_is_num [OF assms(1) rv this hn]
    have on: "\<forall>x \<in> set ?out. is_num x" .
    have ol: "outputSize net \<le> length ?out" by simp
    have sq: "spec_squaredError targets ?out (outputSize net)
        = Num (\<Sum>k<outputSize net. (val (targets ! k) - val (?out ! k))\<^sup>2)"
      by (rule spec_squaredError_real [OF tl ol tn on])
    have m: "?mse = Num ((\<Sum>k<outputSize net. (val (targets ! k) - val (?out ! k))\<^sup>2)
                     / real (outputSize net))"
      using pos by (simp add: spec_train_def Let_def sq)
    have "0 \<le> (\<Sum>k<outputSize net. (val (targets ! k) - val (?out ! k))\<^sup>2) / real (outputSize net)"
      by (intro divide_nonneg_nonneg sum_nonneg) simp_all
    then show "?mse = Num ((\<Sum>k<outputSize net. (val (targets ! k) - val (?out ! k))\<^sup>2)
                     / real (outputSize net)) \<and> 0 \<le> val ?mse"
      using m by simp
  qed
  show ?thesis
    apply (rule exI [of _ ?hid])
    apply (rule exI [of _ ?out])
    apply (rule exI [of _ ?oe])
    apply (rule exI [of _ ?he])
    apply (rule exI [of _ ?mse])
    apply (rule exI [of _ ?net'])
    using c1 c2 c3 c4 c5 c6 c7 c8 c9 c10 c11 c12 c13 c14 c15 c16 c17 c18 c19
    apply (intro conjI)
                      apply assumption+
    done
qed

theorem train_backpropagation_witness:
  "well_formed zeroNet \<and> length [Num 0, Num 0, Num 0, Num 0] = inputSize zeroNet \<and>
   (\<exists>net'. train zeroNet [Num 0, Num 0, Num 0, Num 0] [Num 1] (Num 0.1) = Inr (Num (1 / 4), net') \<and>
      well_formed net' \<and> lastOutput net' = Some [Num (1 / 2)])"
proof -
  have h1: "well_formed zeroNet" by (rule zeroNet_well_formed)
  have h2: "length [Num 0, Num 0, Num 0, Num 0] = inputSize zeroNet" by (simp add: zeroNet_def)
  from train_backpropagation [OF h1 h2, of "[Num 1]" "Num 0.1"]
  obtain hid out oe he mse net' where
    a: "forwardPass zeroNet [Num 0, Num 0, Num 0, Num 0] =
       Inr (out, zeroNet\<lparr>lastInputs := Some [Num 0, Num 0, Num 0, Num 0],
                         lastHidden := Some hid, lastOutput := Some out\<rparr>)"
    and b: "train zeroNet [Num 0, Num 0, Num 0, Num 0] [Num 1] (Num 0.1) = Inr (mse, net')"
    and w: "well_formed net'"
    and lo: "lastOutput net' = Some out"
    and m: "0 < outputSize zeroNet \<and> real_valued zeroNet \<and>
       (\<forall>x \<in> set [Num 0, Num 0, Num 0, Num 0]. is_num x) \<and>
       outputSize zeroNet \<le> length [Num 1] \<and> (\<forall>x \<in> set [Num 1]. is_num x) \<longrightarrow>
        mse = Num ((\<Sum>k<outputSize zeroNet. (val ([Num 1] ! k) - val (out ! k))\<^sup>2)
                     / real (outputSize zeroNet)) \<and>
        0 \<le> val mse"
    by (elim exE conjE)
  have z: "zeroNet = zeroNet\<lparr>lastInputs := None, lastHidden := None, lastOutput := None\<rparr>"
    by (simp add: zeroNet_def)
  have "forwardPass zeroNet [Num 0, Num 0, Num 0, Num 0] = Inr ([Num (1 / 2)],
        zeroNet\<lparr>lastInputs := Some [Num 0, Num 0, Num 0, Num 0],
                lastHidden := Some (replicate 8 (Num (1 / 2))),
                lastOutput := Some [Num (1 / 2)]\<rparr>)"
    using zeroNet_forwardPass [where a = None and b = None and c = None]
    by (simp add: z [symmetric])
  with a have out: "out = [Num (1 / 2)]" by simp
  have pre: "0 < outputSize zeroNet \<and> real_valued zeroNet \<and>
       (\<forall>x \<in> set [Num 0, Num 0, Num 0, Num 0]. is_num x) \<and>
       outputSize zeroNet \<le> length [Num 1] \<and> (\<forall>x \<in> set [Num 1]. is_num x)"
    by (simp add: zeroNet_real_valued) (simp add: zeroNet_def)
  from m pre have "mse = Num ((\<Sum>k<outputSize zeroNet. (val ([Num 1] ! k) - val (out ! k))\<^sup>2)
                     / real (outputSize zeroNet))" by blast
  then have mse: "mse = Num (1 / 4)"
    by (simp add: out zeroNet_def power2_eq_square)
  show ?thesis
    apply (intro conjI h1 h2)
    apply (rule exI [of _ net'])
    using b w lo mse out apply simp
    done
qed

section \<open>The training schedule\<close>

declare trainBatches.simps [simp del] batches_from.simps [simp del]

lemma take_drop_batch: "drop i xs = take n (drop i xs) @ drop (i + n) xs"
proof -
  have "take n (drop i xs) @ drop n (drop i xs) = drop i xs" by (rule append_take_drop_id)
  then show ?thesis by (simp add: add.commute)
qed

lemma trainBatch_append:
  "trainBatch (xs @ ys) lr st = bindE (trainBatch xs lr st) (trainBatch ys lr)"
  unfolding trainBatch_def by (simp add: for_each_append)

lemma trainBatches_drop:
  "trainBatches shuffled lr i st = trainBatch (drop i shuffled) lr st"
proof (induction shuffled lr i st rule: trainBatches.induct)
  case (1 shuffled lr i st)
  show ?case
  proof (cases "i < length shuffled")
    case True
    have d: "drop i shuffled = take batchSize (drop i shuffled) @ drop (i + batchSize) shuffled"
      by (rule take_drop_batch)
    show ?thesis
    proof (cases "trainBatch (take batchSize (drop i shuffled)) lr st")
      case (Inl e)
      have "trainBatch (drop i shuffled) lr st = Inl e"
        by (subst d, simp add: trainBatch_append Inl)
      then show ?thesis using True Inl by (subst trainBatches.simps) simp
    next
      case (Inr st')
      have "trainBatch (drop i shuffled) lr st = trainBatch (drop (i + batchSize) shuffled) lr st'"
        by (subst d, simp add: trainBatch_append Inr)
      then show ?thesis using True Inr "1.IH" [OF True Inr]
        by (subst trainBatches.simps) simp
    qed
  next
    case False
    then show ?thesis by (subst trainBatches.simps) (simp add: trainBatch_def)
  qed
qed

lemma trainBatches_batches:
  "trainBatches shuffled lr i st =
     for_each (batches_from i shuffled) (\<lambda>batch. trainBatch batch lr) st"
proof (induction shuffled lr i st rule: trainBatches.induct)
  case (1 shuffled lr i st)
  show ?case
  proof (cases "i < length shuffled")
    case True
    show ?thesis
    proof (cases "trainBatch (take batchSize (drop i shuffled)) lr st")
      case (Inl e)
      then show ?thesis using True
        by (subst trainBatches.simps, subst batches_from.simps) simp
    next
      case (Inr st')
      then show ?thesis using True "1.IH" [OF True Inr]
        by (subst trainBatches.simps, subst batches_from.simps) simp
    qed
  next
    case False
    then show ?thesis by (subst trainBatches.simps, subst batches_from.simps) simp
  qed
qed

lemma concat_batches_from: "concat (batches_from i xs) = drop i xs"
proof (induction i xs rule: batches_from.induct)
  case (1 i xs)
  show ?case
  proof (cases "i < length xs")
    case True
    have "drop i xs = take batchSize (drop i xs) @ drop (i + batchSize) xs"
      by (rule take_drop_batch)
    then show ?thesis using True "1.IH" [OF True] by (subst batches_from.simps) simp
  next
    case False
    then show ?thesis by (subst batches_from.simps) simp
  qed
qed

lemma batches_from_sizes:
  "\<forall>b \<in> set (batches_from i xs). 0 < length b \<and> length b \<le> batchSize"
proof (induction i xs rule: batches_from.induct)
  case (1 i xs)
  show ?case
  proof (cases "i < length xs")
    case True
    then show ?thesis using "1.IH" [OF True]
      by (subst batches_from.simps) (simp add: batchSize_def)
  next
    case False
    then show ?thesis by (subst batches_from.simps) simp
  qed
qed

lemma batches_from_full:
  "Suc k < length (batches_from i xs) \<Longrightarrow> length (batches_from i xs ! k) = batchSize"
proof (induction i xs arbitrary: k rule: batches_from.induct)
  case (1 i xs)
  show ?case
  proof (cases "i < length xs")
    case True
    note unf = batches_from.simps [of i xs]
    show ?thesis
    proof (cases k)
      case 0
      have "batches_from (i + batchSize) xs \<noteq> []" using "1.prems" True unf by auto
      then have "i + batchSize < length xs"
        by (subst (asm) batches_from.simps) (simp split: if_splits)
      then show ?thesis using True 0 unf by simp
    next
      case (Suc k')
      then have "Suc k' < length (batches_from (i + batchSize) xs)"
        using "1.prems" True unf by simp
      from "1.IH" [OF True this] show ?thesis using True Suc unf by simp
    qed
  next
    case False
    then show ?thesis using "1.prems" by (subst (asm) batches_from.simps) simp
  qed
qed

lemma bindE_return [simp]: "bindE m Inr = m"
  by (cases m) simp_all

lemma for_each_snoc: "for_each (xs @ [x]) body s = bindE (for_each xs body s) (body x)"
proof -
  have "for_each [x] body = body x"
  proof (rule ext)
    fix s0
    have "for_each [] body = Inr" by (rule ext) simp
    then show "for_each [x] body s0 = body x s0" by simp
  qed
  then show ?thesis by (simp add: for_each_append)
qed

lemma valid_rng_random: "valid_rng g \<Longrightarrow> valid_rng (snd (random g))"
  by (simp add: valid_rng_def random_def)

lemma random_index:
  assumes "valid_rng g"
  shows "nat \<lfloor>fst (random g) * real (Suc k)\<rfloor> \<le> k"
proof -
  have r: "0 \<le> g 0" "g 0 < 1" using assms by (simp_all add: valid_rng_def)
  have "g 0 * real (Suc k) < real (Suc k)" using r by simp
  then have "\<lfloor>g 0 * real (Suc k)\<rfloor> < int (Suc k)" by (simp add: floor_less_iff)
  then show ?thesis by (simp add: random_def)
qed

lemma length_shuffleLoop [simp]: "length (fst (shuffleLoop k array g)) = length array"
  by (induction k arbitrary: array g) (simp_all add: Let_def split: prod.splits)

lemma length_shuffle [simp]: "length (fst (shuffle array g)) = length array"
  by (simp add: shuffle_def)

lemma mset_shuffleLoop:
  "valid_rng g \<Longrightarrow> k < length array \<Longrightarrow> mset (fst (shuffleLoop k array g)) = mset array"
proof (induction k arbitrary: array g)
  case 0
  then show ?case by simp
next
  case (Suc k)
  obtain r g1 where rg: "random g = (r, g1)" by (cases "random g")
  let ?j = "nat \<lfloor>r * real (Suc k + 1)\<rfloor>"
  have j: "?j \<le> Suc k" using random_index [OF Suc.prems(1), of "Suc k"] rg by simp
  have v: "valid_rng g1" using valid_rng_random [OF Suc.prems(1)] rg by simp
  let ?a = "array[Suc k := array ! ?j, ?j := array ! Suc k]"
  have m: "mset ?a = mset array"
    using Suc.prems(2) j by (intro mset_swap) simp_all
  have "mset (fst (shuffleLoop k ?a g1)) = mset ?a"
    using Suc.prems(2) by (intro Suc.IH [OF v]) simp
  then show ?case using m by (simp add: rg Let_def)
qed

lemma mset_shuffle: "valid_rng g \<Longrightarrow> mset (fst (shuffle array g)) = mset array"
proof (cases "array = []")
  case True
  then show ?thesis by (simp add: shuffle_def)
next
  case False
  assume "valid_rng g"
  then show ?thesis using False by (simp add: shuffle_def mset_shuffleLoop)
qed

lemma valid_rng_shuffleLoop: "valid_rng g \<Longrightarrow> valid_rng (snd (shuffleLoop k array g))"
proof (induction k arbitrary: array g)
  case 0
  then show ?case by simp
next
  case (Suc k)
  obtain r g1 where rg: "random g = (r, g1)" by (cases "random g")
  have v: "valid_rng g1" using valid_rng_random [OF Suc.prems] rg by simp
  show ?case using Suc.IH [OF v] by (simp add: rg Let_def)
qed

lemma valid_rng_shuffle: "valid_rng g \<Longrightarrow> valid_rng (snd (shuffle array g))"
  by (simp add: shuffle_def valid_rng_shuffleLoop)

lemma epoch_orders_length: "length (fst (epoch_orders buf n g)) = n"
proof (induction n)
  case 0
  show ?case by simp
next
  case (Suc n)
  obtain before g1 where e: "epoch_orders buf n g = (before, g1)" by (cases "epoch_orders buf n g")
  obtain sh g2 where s: "shuffle buf g1 = (sh, g2)" by (cases "shuffle buf g1")
  show ?case using Suc e s by simp
qed

lemma epoch_orders_lengths: "\<forall>sh \<in> set (fst (epoch_orders buf n g)). length sh = length buf"
proof (induction n)
  case 0
  show ?case by simp
next
  case (Suc n)
  obtain before g1 where e: "epoch_orders buf n g = (before, g1)" by (cases "epoch_orders buf n g")
  obtain sh g2 where s: "shuffle buf g1 = (sh, g2)" by (cases "shuffle buf g1")
  have "length sh = length buf" using length_shuffle [of buf g1] s by simp
  then show ?case using Suc e s by simp
qed

lemma epoch_orders_valid:
  "valid_rng g \<Longrightarrow> valid_rng (snd (epoch_orders buf n g)) \<and>
     (\<forall>sh \<in> set (fst (epoch_orders buf n g)). mset sh = mset buf)"
proof (induction n)
  case 0
  then show ?case by simp
next
  case (Suc n)
  obtain before g1 where e: "epoch_orders buf n g = (before, g1)" by (cases "epoch_orders buf n g")
  obtain sh g2 where s: "shuffle buf g1 = (sh, g2)" by (cases "shuffle buf g1")
  have v1: "valid_rng g1" and b: "\<forall>sh \<in> set before. mset sh = mset buf"
    using Suc e by simp_all
  have "mset sh = mset buf" using mset_shuffle [OF v1, of buf] s by simp
  moreover have "valid_rng g2" using valid_rng_shuffle [OF v1, of buf] s by simp
  ultimately show ?case using b e s by simp
qed

lemma length_concat_const:
  "\<forall>x \<in> set xss. length x = n \<Longrightarrow> length (concat xss) = length xss * n"
  by (induction xss) simp_all

lemma trainBatch_train_all:
  "trainBatch ss lr (net, acc, n) =
     bindE (train_all net lr ss)
       (\<lambda>(losses, net'). Inr (net', foldl jadd acc losses, n + length losses))"
proof (induction ss arbitrary: net acc n)
  case Nil
  show ?case by (simp add: trainBatch_def)
next
  case (Cons s ss)
  show ?case
  proof (cases "train net (inputs s) (target s) lr")
    case (Inl e)
    then show ?thesis by (simp add: trainBatch_def)
  next
    case (Inr p)
    obtain loss net1 where p: "p = (loss, net1)" by (cases p)
    have step: "trainBatch (s # ss) lr (net, acc, n) =
        trainBatch ss lr (net1, jadd acc loss, Suc n)"
      using Inr p by (simp add: trainBatch_def)
    show ?thesis
      unfolding step Cons.IH using Inr p
      by (cases "train_all net1 lr ss") (auto split: prod.splits)
  qed
qed

lemma train_all_length:
  "train_all net lr ss = Inr (losses, net') \<Longrightarrow> length losses = length ss"
proof (induction ss arbitrary: net losses)
  case Nil
  then show ?case by simp
next
  case (Cons s ss)
  then show ?case by (auto simp: bindE_eq_Inr split: prod.splits)
qed

lemma trainEpochs_orders:
  "trainEpochs t lr n g =
     bindE (trainBatch (concat (fst (epoch_orders (trainingData t) n g))) lr (nn t, Num 0, 0))
       (\<lambda>st. Inr (st, snd (epoch_orders (trainingData t) n g)))"
proof (induction n)
  case 0
  show ?case by (simp add: trainEpochs_def trainBatch_def)
next
  case (Suc n)
  obtain before g1 where e: "epoch_orders (trainingData t) n g = (before, g1)"
    by (cases "epoch_orders (trainingData t) n g")
  obtain sh g2 where s: "shuffle (trainingData t) g1 = (sh, g2)"
    by (cases "shuffle (trainingData t) g1")
  have ih: "trainEpochs t lr n g =
     bindE (trainBatch (concat before) lr (nn t, Num 0, 0)) (\<lambda>st. Inr (st, g1))"
    using Suc e by simp
  have unf: "trainEpochs t lr (Suc n) g =
     bindE (trainEpochs t lr n g)
       (\<lambda>(st, g0). let (shuffled, g1) = shuffle (trainingData t) g0
                   in bindE (trainBatches shuffled lr 0 st) (\<lambda>st'. Inr (st', g1)))"
    by (simp add: trainEpochs_def for_each_snoc)
  show ?case
    unfolding unf ih
    by (cases "trainBatch (concat before) lr (nn t, Num 0, 0)")
       (simp_all add: e s trainBatches_drop trainBatch_append)
qed

lemma train_all_succeeds:
  "well_formed net \<Longrightarrow> \<forall>s \<in> set ss. length (inputs s) = inputSize net \<Longrightarrow>
   \<exists>losses net'. train_all net lr ss = Inr (losses, net') \<and> length losses = length ss \<and>
      well_formed net' \<and> inputSize net' = inputSize net"
proof (induction ss arbitrary: net)
  case Nil
  then show ?case by simp
next
  case (Cons s ss)
  obtain loss net1 where p: "spec_train net (inputs s) (target s) lr = (loss, net1)"
    by (cases "spec_train net (inputs s) (target s) lr")
  have l: "length (inputs s) = inputSize net" using Cons.prems(2) by simp
  have t: "train net (inputs s) (target s) lr = Inr (loss, net1)"
    using train_eq [OF Cons.prems(1) l] p by simp
  have w: "well_formed net1" using spec_train_well_formed [of net "inputs s" "target s" lr] p by simp
  have i: "inputSize net1 = inputSize net"
    using spec_train_sizes(1) [of net "inputs s" "target s" lr] p by simp
  have "\<forall>s \<in> set ss. length (inputs s) = inputSize net1" using Cons.prems(2) i by simp
  from Cons.IH [OF w this] obtain losses net' where
    a: "train_all net1 lr ss = Inr (losses, net')" and b: "length losses = length ss"
    and c: "well_formed net'" and d: "inputSize net' = inputSize net1"
    by blast
  have "train_all net lr (s # ss) = Inr (loss # losses, net')" by (simp add: t a)
  then show ?case using b c d i by simp
qed

lemma trainer_train_small:
  "length (trainingData t) < batchSize \<Longrightarrow> trainer_train t lr epochs g = Inr (Num 0, t, g)"
  by (simp add: trainer_train_def)

lemma trainer_train_eq:
  assumes "batchSize \<le> length (trainingData t)"
  shows "trainer_train t lr epochs g =
     bindE (train_all (nn t) lr (concat (fst (epoch_orders (trainingData t) epochs g))))
       (\<lambda>(losses, net').
          Inr (jdiv (foldl jadd (Num 0) losses) (Num (real (length losses))),
               t\<lparr>nn := net',
                 trainingStats := (trainingStats t)
                   \<lparr>currentLoss := jdiv (foldl jadd (Num 0) losses) (Num (real (length losses))),
                    trainedEpochs := trainedEpochs (trainingStats t) + epochs\<rparr>\<rparr>,
               snd (epoch_orders (trainingData t) epochs g)))"
proof -
  have n: "\<not> length (trainingData t) < batchSize" using assms by simp
  show ?thesis
    by (cases "train_all (nn t) lr (concat (fst (epoch_orders (trainingData t) epochs g)))")
       (auto simp: trainer_train_def n trainEpochs_orders trainBatch_train_all Let_def
             split: prod.splits)
qed

lemma epoch_orders_samples:
  assumes "valid_rng g" and "\<forall>s \<in> set buf. P s"
  shows "\<forall>s \<in> set (concat (fst (epoch_orders buf n g))). P s"
proof
  fix s assume "s \<in> set (concat (fst (epoch_orders buf n g)))"
  then obtain sh where sh: "sh \<in> set (fst (epoch_orders buf n g))" and s: "s \<in> set sh" by auto
  have "mset sh = mset buf" using epoch_orders_valid [OF assms(1), of buf n] sh by simp
  then have "set sh = set buf" by (rule mset_eq_setD)
  then show "P s" using s assms(2) by simp
qed

lemma valid_rng_zero: "valid_rng (\<lambda>n. 0)"
  by (simp add: valid_rng_def)

lemma shuffleLoop_draws: "snd (shuffleLoop k xs g) = (\<lambda>n. g (n + k))"
proof (induction k arbitrary: xs g)
  case 0
  show ?case by simp
next
  case (Suc k)
  show ?case by (simp add: random_def Let_def Suc)
qed

lemma shuffle_draws: "snd (shuffle xs g) = (\<lambda>n. g (n + (length xs - 1)))"
  by (simp add: shuffle_def shuffleLoop_draws)

lemma shuffleLoop_above:
  "valid_rng g \<Longrightarrow> k < p \<Longrightarrow> fst (shuffleLoop k xs g) ! p = xs ! p"
proof (induction k arbitrary: xs g)
  case 0
  show ?case by simp
next
  case (Suc k)
  obtain r g1 where rg: "random g = (r, g1)" by (cases "random g")
  let ?j = "nat \<lfloor>r * real (Suc k + 1)\<rfloor>"
  have j: "?j \<le> Suc k" using random_index [OF Suc.prems(1), of "Suc k"] rg by simp
  have v: "valid_rng g1" using valid_rng_random [OF Suc.prems(1)] rg by simp
  let ?a = "xs[Suc k := xs ! ?j, ?j := xs ! Suc k]"
  have "fst (shuffleLoop k ?a g1) ! p = ?a ! p"
    using Suc.prems(2) by (intro Suc.IH [OF v]) simp
  moreover have "?a ! p = xs ! p" using j Suc.prems(2) by simp
  ultimately show ?case by (simp add: rg Let_def)
qed

lemma shuffleLoop_choice:
  assumes "valid_rng g" and "Suc k < length xs"
  shows "fst (shuffleLoop (Suc k) xs g) ! Suc k = xs ! nat \<lfloor>g 0 * real (Suc k + 1)\<rfloor>"
proof -
  let ?j = "nat \<lfloor>g 0 * real (Suc k + 1)\<rfloor>"
  let ?g1 = "\<lambda>n. g (Suc n)"
  have j: "?j \<le> Suc k" using random_index [OF assms(1), of "Suc k"] by (simp add: random_def)
  have v: "valid_rng ?g1" using valid_rng_random [OF assms(1)] by (simp add: random_def)
  let ?a = "xs[Suc k := xs ! ?j, ?j := xs ! Suc k]"
  have "fst (shuffleLoop (Suc k) xs g) = fst (shuffleLoop k ?a ?g1)"
    by (simp add: random_def Let_def)
  moreover have "fst (shuffleLoop k ?a ?g1) ! Suc k = ?a ! Suc k"
    by (rule shuffleLoop_above [OF v]) simp
  moreover have "?a ! Suc k = xs ! ?j"
    using assms(2) j by (cases "?j = Suc k") simp_all
  ultimately show ?thesis by simp
qed

lemma shuffle_last:
  assumes "valid_rng g" and "2 \<le> length xs"
  shows "fst (shuffle xs g) ! (length xs - 1) = xs ! nat \<lfloor>g 0 * real (length xs)\<rfloor>"
proof -
  define k where "k = length xs - 2"
  have k: "length xs = Suc (Suc k)" using assms(2) by (simp add: k_def)
  have l: "Suc k < length xs" using k by simp
  have "fst (shuffleLoop (Suc k) xs g) ! Suc k = xs ! nat \<lfloor>g 0 * real (Suc k + 1)\<rfloor>"
    by (rule shuffleLoop_choice [OF assms(1) l])
  moreover have "length xs - 1 = Suc k" using k by simp
  moreover have "real (Suc k + 1) = real (length xs)" using k by simp
  ultimately show ?thesis by (simp only: shuffle_def)
qed

lemma shuffleLoop_inj:
  "distinct xs \<Longrightarrow> k < length xs \<Longrightarrow> valid_rng g \<Longrightarrow> valid_rng g' \<Longrightarrow>
   fst (shuffleLoop k xs g) = fst (shuffleLoop k xs g') \<Longrightarrow>
   \<forall>m < k. nat \<lfloor>g m * real (Suc k - m)\<rfloor> = nat \<lfloor>g' m * real (Suc k - m)\<rfloor>"
proof (induction k arbitrary: xs g g')
  case 0
  show ?case by simp
next
  case (Suc k)
  let ?j = "nat \<lfloor>g 0 * real (Suc k + 1)\<rfloor>"
  let ?j' = "nat \<lfloor>g' 0 * real (Suc k + 1)\<rfloor>"
  let ?g1 = "\<lambda>n. g (Suc n)"
  let ?g1' = "\<lambda>n. g' (Suc n)"
  have j: "?j \<le> Suc k" using random_index [OF Suc.prems(3), of "Suc k"] by (simp add: random_def)
  have j': "?j' \<le> Suc k" using random_index [OF Suc.prems(4), of "Suc k"] by (simp add: random_def)
  have v: "valid_rng ?g1" using valid_rng_random [OF Suc.prems(3)] by (simp add: random_def)
  have v': "valid_rng ?g1'" using valid_rng_random [OF Suc.prems(4)] by (simp add: random_def)
  have "xs ! ?j = xs ! ?j'"
    using shuffleLoop_choice [OF Suc.prems(3,2)] shuffleLoop_choice [OF Suc.prems(4,2)]
      Suc.prems(5) by simp
  then have jj: "?j = ?j'"
    using Suc.prems(1,2) j j' by (simp add: nth_eq_iff_index_eq)
  let ?a = "xs[Suc k := xs ! ?j, ?j := xs ! Suc k]"
  have d: "distinct ?a" using Suc.prems(1,2) j by (simp add: distinct_swap)
  have l: "k < length ?a" using Suc.prems(2) by simp
  have e: "fst (shuffleLoop k ?a ?g1) = fst (shuffleLoop k ?a ?g1')"
    using Suc.prems(5) jj by (simp add: random_def Let_def)
  have ih: "\<forall>m < k. nat \<lfloor>g (Suc m) * real (Suc k - m)\<rfloor> = nat \<lfloor>g' (Suc m) * real (Suc k - m)\<rfloor>"
    by (rule Suc.IH [OF d l v v' e])
  show ?case
  proof (intro allI impI)
    fix m assume m: "m < Suc k"
    show "nat \<lfloor>g m * real (Suc (Suc k) - m)\<rfloor> = nat \<lfloor>g' m * real (Suc (Suc k) - m)\<rfloor>"
    proof (cases m)
      case 0
      then show ?thesis using jj by simp
    next
      case (Suc m')
      then have "m' < k" using m by simp
      then show ?thesis using ih Suc by simp
    qed
  qed
qed

lemma shuffle_inj:
  assumes "distinct xs" and "valid_rng g" and "valid_rng g'"
    and "fst (shuffle xs g) = fst (shuffle xs g')"
  shows "\<forall>m < length xs - 1. nat \<lfloor>g m * real (length xs - m)\<rfloor> = nat \<lfloor>g' m * real (length xs - m)\<rfloor>"
proof (cases "xs = []")
  case True
  then show ?thesis by simp
next
  case False
  then have k: "length xs - 1 < length xs" by simp
  have "Suc (length xs - 1) = length xs" using False by simp
  then show ?thesis
    using shuffleLoop_inj [OF assms(1) k assms(2,3)] assms(4) by (simp add: shuffle_def)
qed

lemma shuffleLoop_reach:
  "k < length xs \<Longrightarrow> length ys = length xs \<Longrightarrow>
   mset (take (Suc k) ys) = mset (take (Suc k) xs) \<Longrightarrow> drop (Suc k) ys = drop (Suc k) xs \<Longrightarrow>
   \<exists>g. valid_rng g \<and> fst (shuffleLoop k xs g) = ys"
proof (induction k arbitrary: xs)
  case 0
  have "take (Suc 0) ys = [ys ! 0]" "take (Suc 0) xs = [xs ! 0]"
    using 0 by (simp_all add: take_Suc_conv_app_nth)
  then have "take (Suc 0) ys = take (Suc 0) xs" using 0 by simp
  then have "take (Suc 0) ys @ drop (Suc 0) ys = take (Suc 0) xs @ drop (Suc 0) xs"
    using 0 by simp
  then have "ys = xs" by (simp only: append_take_drop_id)
  then show ?case using valid_rng_zero by (intro exI [of _ "\<lambda>n. 0"]) simp
next
  case (Suc k)
  let ?n = "Suc (Suc k)"
  let ?v = "ys ! Suc k"
  have ty: "take ?n ys = take (Suc k) ys @ [?v]"
    using Suc.prems by (simp add: take_Suc_conv_app_nth)
  have "?v \<in> set (take ?n ys)" using ty by simp
  then have "?v \<in># mset (take ?n xs)" using Suc.prems(3) by (metis set_mset_mset)
  then have "?v \<in> set (take ?n xs)" by simp
  then obtain j where j: "j < ?n" "j < length xs" and xj: "xs ! j = ?v"
    by (auto simp: in_set_conv_nth)
  let ?a = "xs[Suc k := xs ! j, j := xs ! Suc k]"
  have la: "length ?a = length xs" by simp
  have ak: "?a ! Suc k = ?v" using Suc.prems(1) j xj by (cases "j = Suc k") simp_all
  have sw: "mset ((take ?n xs)[Suc k := take ?n xs ! j, j := take ?n xs ! Suc k])
      = mset (take ?n xs)"
    using j Suc.prems(1) by (intro mset_swap) simp_all
  have "take ?n ?a = (take ?n xs)[Suc k := take ?n xs ! j, j := take ?n xs ! Suc k]"
    using j by (simp add: take_update_swap)
  then have "mset (take ?n ?a) = mset (take ?n xs)"
    using sw by (simp only:)
  moreover have ta: "take ?n ?a = take (Suc k) ?a @ [?v]"
    using Suc.prems(1) ak by (simp add: take_Suc_conv_app_nth del: list_update.simps)
  ultimately have e2: "add_mset ?v (mset (take (Suc k) ?a)) = mset (take ?n xs)"
    by (simp del: list_update.simps)
  have e1: "add_mset ?v (mset (take (Suc k) ys)) = mset (take ?n xs)"
    using Suc.prems(3) ty by simp
  have "add_mset ?v (mset (take (Suc k) ys)) = add_mset ?v (mset (take (Suc k) ?a))"
    using e1 e2 by (simp only:)
  then have m: "mset (take (Suc k) ys) = mset (take (Suc k) ?a)"
    by (simp only: add_mset_add_mset_same_iff)
  have "drop (Suc k) ys = ?v # drop ?n ys"
    using Suc.prems(1,2) by (simp add: Cons_nth_drop_Suc)
  moreover have "drop (Suc k) ?a = ?a ! Suc k # drop ?n ?a"
    using Suc.prems(1) by (simp add: Cons_nth_drop_Suc del: list_update.simps)
  moreover have "drop ?n ?a = drop ?n xs" using j by simp
  ultimately have d: "drop (Suc k) ys = drop (Suc k) ?a" using ak Suc.prems(4) by simp
  have "k < length ?a" using Suc.prems(1) by simp
  from Suc.IH [OF this _ m d] Suc.prems(2) obtain g' where
    g': "valid_rng g'" and r: "fst (shuffleLoop k ?a g') = ys" by auto
  let ?g = "\<lambda>n. case n of 0 \<Rightarrow> real j / real ?n | Suc m \<Rightarrow> g' m"
  have "real j / real ?n * real (Suc k + 1) = real j" by simp
  then have jj: "nat \<lfloor>real j / real ?n * real (Suc k + 1)\<rfloor> = j" by simp
  have "fst (shuffleLoop (Suc k) xs ?g) = ys"
    using r jj by (simp add: random_def Let_def del: list_update.simps)
  moreover have "valid_rng ?g"
    using g' j by (auto simp: valid_rng_def split: nat.splits)
  ultimately show ?case by blast
qed

lemma shuffle_reach:
  assumes "mset ys = mset xs"
  shows "\<exists>g. valid_rng g \<and> fst (shuffle xs g) = ys"
proof (cases "xs = []")
  case True
  then show ?thesis using assms valid_rng_zero by (intro exI [of _ "\<lambda>n. 0"]) (simp add: shuffle_def)
next
  case False
  have l: "length ys = length xs" using assms by (rule mset_eq_length)
  have s: "Suc (length xs - 1) = length xs" using False by simp
  have "\<exists>g. valid_rng g \<and> fst (shuffleLoop (length xs - 1) xs g) = ys"
    using False l assms by (intro shuffleLoop_reach) (simp_all add: s)
  then show ?thesis by (simp add: shuffle_def)
qed

lemma shuffleLoop_zero:
  "k < length xs \<Longrightarrow>
   fst (shuffleLoop k xs (\<lambda>n. 0)) = rotate1 (take (Suc k) xs) @ drop (Suc k) xs"
proof (induction k arbitrary: xs)
  case 0
  then show ?case by (cases xs) simp_all
next
  case (Suc k)
  obtain x rest where xs: "xs = x # rest" using Suc.prems by (cases xs) auto
  have k: "k < length rest" using Suc.prems xs by simp
  let ?a = "xs[Suc k := xs ! 0, 0 := xs ! Suc k]"
  have a: "?a = rest ! k # take k rest @ x # drop (Suc k) rest"
    using k by (simp add: xs upd_conv_take_nth_drop)
  have "fst (shuffleLoop (Suc k) xs (\<lambda>n. 0)) = fst (shuffleLoop k ?a (\<lambda>n. 0))"
    by (simp add: random_def Let_def del: list_update.simps)
  also have "\<dots> = rotate1 (take (Suc k) ?a) @ drop (Suc k) ?a"
    using Suc.prems by (intro Suc.IH) simp
  also have "\<dots> = rotate1 (take (Suc (Suc k)) xs) @ drop (Suc (Suc k)) xs"
    unfolding a using k by (simp add: xs take_Suc_conv_app_nth)
  finally show ?case .
qed

lemma shuffle_zero: "fst (shuffle xs (\<lambda>n. 0)) = rotate1 xs"
proof (cases "xs = []")
  case True
  then show ?thesis by (simp add: shuffle_def)
next
  case False
  then have "Suc (length xs - 1) = length xs" by simp
  then show ?thesis using False by (simp add: shuffle_def shuffleLoop_zero)
qed

lemma epoch_orders_nth:
  "k < n \<Longrightarrow>
   fst (epoch_orders buf n g) ! k = fst (shuffle buf (snd (epoch_orders buf k g)))"
proof (induction n)
  case 0
  then show ?case by simp
next
  case (Suc n)
  obtain before g1 where e: "epoch_orders buf n g = (before, g1)" by (cases "epoch_orders buf n g")
  obtain sh g2 where s: "shuffle buf g1 = (sh, g2)" by (cases "shuffle buf g1")
  have l: "length before = n" using epoch_orders_length [of buf n g] e by simp
  show ?case
  proof (cases "k < n")
    case True
    then show ?thesis using Suc.IH e s l by (simp add: nth_append)
  next
    case False
    then have "k = n" using Suc.prems by simp
    then show ?thesis using e s l by (simp add: nth_append)
  qed
qed

text \<open>
  Claim C4. With fewer than 32 samples \<^verbatim>\<open>Trainer.train\<close> returns \<open>0\<close> without an error and
  leaves the trainer (network, buffer, statistics) as it was. With at least 32 it shuffles
  the buffer once per epoch (\<open>epochs\<close> lists as long as the buffer, permutations of it when
  the draws are in \<open>[0, 1)\<close>; the list of epoch \<open>k\<close> is the shuffle of the buffer itself
  with the draws the earlier epochs have left), calls \<^verbatim>\<open>train\<close> once per sample of these
  lists in order, adds \<open>epochs\<close> to \<^verbatim>\<open>trainedEpochs\<close>, and sets and returns \<^verbatim>\<open>currentLoss\<close> as
  the sum of the losses over their number. When the network is well-formed and the samples
  have its input length, every call succeeds and \<open>epochs * length\<close> samples are processed.
  Each shuffled list is run in contiguous batches of 32, only the last of which may be
  shorter, and a batch is its samples trained in order.

  The shuffle is a full one: on draws in \<open>[0, 1)\<close> its result is a permutation of the
  buffer; it takes one draw per slot but the first; every permutation of the buffer is
  the result for some draws; on a buffer of distinct samples two runs that give the
  same order have chosen the same index \<open>floor (draw * (i + 1))\<close> at every step, so that
  the orders correspond one to one to the sequences of index choices; and the sample put
  last is the one the first draw chooses among all of them.
\<close>

theorem trainer_train_schedule:
  "(length (trainingData t) < 32 \<longrightarrow> trainer_train t lr epochs g = Inr (Num 0, t, g))
   \<and> (32 \<le> length (trainingData t) \<longrightarrow>
        (\<exists>orders g'.
           epoch_orders (trainingData t) epochs g = (orders, g') \<and> length orders = epochs \<and>
           (\<forall>sh \<in> set orders. length sh = length (trainingData t)) \<and>
           (valid_rng g \<longrightarrow> (\<forall>sh \<in> set orders. mset sh = mset (trainingData t))) \<and>
           (\<forall>k < epochs. orders ! k =
              fst (shuffle (trainingData t) (snd (epoch_orders (trainingData t) k g)))) \<and>
           trainer_train t lr epochs g =
             bindE (train_all (nn t) lr (concat orders))
               (\<lambda>(losses, net').
                  Inr (jdiv (foldl jadd (Num 0) losses) (Num (real (length losses))),
                       t\<lparr>nn := net',
                         trainingStats := (trainingStats t)
                           \<lparr>currentLoss :=
                              jdiv (foldl jadd (Num 0) losses) (Num (real (length losses))),
                            trainedEpochs := trainedEpochs (trainingStats t) + epochs\<rparr>\<rparr>,
                       g')) \<and>
           (valid_rng g \<and> well_formed (nn t) \<and>
            (\<forall>s \<in> set (trainingData t). length (inputs s) = inputSize (nn t)) \<longrightarrow>
              (\<exists>losses net'. train_all (nn t) lr (concat orders) = Inr (losses, net') \<and>
                 length losses = epochs * length (trainingData t)))))
   \<and> (\<forall>shuffled st.
         trainBatches shuffled lr 0 st =
           for_each (batches_from 0 shuffled) (\<lambda>batch. trainBatch batch lr) st \<and>
         concat (batches_from 0 shuffled) = shuffled \<and>
         (\<forall>b \<in> set (batches_from 0 shuffled). 0 < length b \<and> length b \<le> 32) \<and>
         (\<forall>k. Suc k < length (batches_from 0 shuffled) \<longrightarrow>
               length (batches_from 0 shuffled ! k) = 32))
   \<and> (\<forall>batch net acc n.
         trainBatch batch lr (net, acc, n) =
           bindE (train_all net lr batch)
             (\<lambda>(losses, net'). Inr (net', foldl jadd acc losses, n + length losses)))
   \<and> (\<forall>buf :: sample list.
         (\<forall>g0. valid_rng g0 \<longrightarrow> mset (fst (shuffle buf g0)) = mset buf) \<and>
         (\<forall>g0. snd (shuffle buf g0) = (\<lambda>n. g0 (n + (length buf - 1)))) \<and>
         (\<forall>ys. mset ys = mset buf \<longrightarrow> (\<exists>g0. valid_rng g0 \<and> fst (shuffle buf g0) = ys)) \<and>
         (\<forall>g0 g1. distinct buf \<and> valid_rng g0 \<and> valid_rng g1 \<and>
                  fst (shuffle buf g0) = fst (shuffle buf g1) \<longrightarrow>
            (\<forall>m < length buf - 1.
               nat \<lfloor>g0 m * real (length buf - m)\<rfloor> = nat \<lfloor>g1 m * real (length buf - m)\<rfloor>)) \<and>
         (\<forall>g0. valid_rng g0 \<and> 2 \<le> length buf \<longrightarrow>
            fst (shuffle buf g0) ! (length buf - 1) = buf ! nat \<lfloor>g0 0 * real (length buf)\<rfloor>))"
proof (intro conjI)
  show "length (trainingData t) < 32 \<longrightarrow> trainer_train t lr epochs g = Inr (Num 0, t, g)"
    using trainer_train_small [of t lr epochs g] by (simp add: batchSize_def)
next
  let ?orders = "fst (epoch_orders (trainingData t) epochs g)"
  let ?g' = "snd (epoch_orders (trainingData t) epochs g)"
  show "32 \<le> length (trainingData t) \<longrightarrow>
        (\<exists>orders g'.
           epoch_orders (trainingData t) epochs g = (orders, g') \<and> length orders = epochs \<and>
           (\<forall>sh \<in> set orders. length sh = length (trainingData t)) \<and>
           (valid_rng g \<longrightarrow> (\<forall>sh \<in> set orders. mset sh = mset (trainingData t))) \<and>
           (\<forall>k < epochs. orders ! k =
              fst (shuffle (trainingData t) (snd (epoch_orders (trainingData t) k g)))) \<and>
           trainer_train t lr epochs g =
             bindE (train_all (nn t) lr (concat orders))
               (\<lambda>(losses, net').
                  Inr (jdiv (foldl jadd (Num 0) losses) (Num (real (length losses))),
                       t\<lparr>nn := net',
                         trainingStats := (trainingStats t)
                           \<lparr>currentLoss :=
                              jdiv (foldl jadd (Num 0) losses) (Num (real (length losses))),
                            trainedEpochs := trainedEpochs (trainingStats t) + epochs\<rparr>\<rparr>,
                       g')) \<and>
           (valid_rng g \<and> well_formed (nn t) \<and>
            (\<forall>s \<in> set (trainingData t). length (inputs s) = inputSize (nn t)) \<longrightarrow>
              (\<exists>losses net'. train_all (nn t) lr (concat orders) = Inr (losses, net') \<and>
                 length losses = epochs * length (trainingData t))))"
  proof
    assume big: "32 \<le> length (trainingData t)"
    have 1: "epoch_orders (trainingData t) epochs g = (?orders, ?g')" by simp
    have 2: "length ?orders = epochs" by (rule epoch_orders_length)
    have 3: "\<forall>sh \<in> set ?orders. length sh = length (trainingData t)"
      by (rule epoch_orders_lengths)
    have 4: "valid_rng g \<longrightarrow> (\<forall>sh \<in> set ?orders. mset sh = mset (trainingData t))"
      using epoch_orders_valid [of g "trainingData t" epochs] by simp
    have 7: "\<forall>k < epochs. ?orders ! k =
              fst (shuffle (trainingData t) (snd (epoch_orders (trainingData t) k g)))"
      by (simp add: epoch_orders_nth)
    have 5: "trainer_train t lr epochs g =
             bindE (train_all (nn t) lr (concat ?orders))
               (\<lambda>(losses, net').
                  Inr (jdiv (foldl jadd (Num 0) losses) (Num (real (length losses))),
                       t\<lparr>nn := net',
                         trainingStats := (trainingStats t)
                           \<lparr>currentLoss :=
                              jdiv (foldl jadd (Num 0) losses) (Num (real (length losses))),
                            trainedEpochs := trainedEpochs (trainingStats t) + epochs\<rparr>\<rparr>,
                       ?g'))"
      using big by (intro trainer_train_eq) (simp add: batchSize_def)
    have 6: "valid_rng g \<and> well_formed (nn t) \<and>
            (\<forall>s \<in> set (trainingData t). length (inputs s) = inputSize (nn t)) \<longrightarrow>
              (\<exists>losses net'. train_all (nn t) lr (concat ?orders) = Inr (losses, net') \<and>
                 length losses = epochs * length (trainingData t))"
    proof (intro impI, elim conjE)
      assume v: "valid_rng g" and w: "well_formed (nn t)"
        and s: "\<forall>s \<in> set (trainingData t). length (inputs s) = inputSize (nn t)"
      have "\<forall>s \<in> set (concat ?orders). length (inputs s) = inputSize (nn t)"
        by (rule epoch_orders_samples [OF v s])
      from train_all_succeeds [OF w this, of lr] obtain losses net' where
        a: "train_all (nn t) lr (concat ?orders) = Inr (losses, net')"
        and b: "length losses = length (concat ?orders)" by blast
      have "length (concat ?orders) = length ?orders * length (trainingData t)"
        by (rule length_concat_const [OF 3])
      then have "length losses = epochs * length (trainingData t)" using b 2 by simp
      then show "\<exists>losses net'. train_all (nn t) lr (concat ?orders) = Inr (losses, net') \<and>
                 length losses = epochs * length (trainingData t)" using a by blast
    qed
    show "\<exists>orders g'.
           epoch_orders (trainingData t) epochs g = (orders, g') \<and> length orders = epochs \<and>
           (\<forall>sh \<in> set orders. length sh = length (trainingData t)) \<and>
           (valid_rng g \<longrightarrow> (\<forall>sh \<in> set orders. mset sh = mset (trainingData t))) \<and>
           (\<forall>k < epochs. orders ! k =
              fst (shuffle (trainingData t) (snd (epoch_orders (trainingData t) k g)))) \<and>
           trainer_train t lr epochs g =
             bindE (train_all (nn t) lr (concat orders))
               (\<lambda>(losses, net').
                  Inr (jdiv (foldl jadd (Num 0) losses) (Num (real (length losses))),
                       t\<lparr>nn := net',
                         trainingStats := (trainingStats t)
                           \<lparr>currentLoss :=
                              jdiv (foldl jadd (Num 0) losses) (Num (real (length losses))),
                            trainedEpochs := trainedEpochs (trainingStats t) + epochs\<rparr>\<rparr>,
                       g')) \<and>
           (valid_rng g \<and> well_formed (nn t) \<and>
            (\<forall>s \<in> set (trainingData t). length (inputs s) = inputSize (nn t)) \<longrightarrow>
              (\<exists>losses net'. train_all (nn t) lr (concat orders) = Inr (losses, net') \<and>
                 length losses = epochs * length (trainingData t)))"
      apply (rule exI [of _ ?orders])
      apply (rule exI [of _ ?g'])
      using 1 2 3 4 7 5 6 apply (intro conjI)
            apply assumption+
      done
  qed
next
  show "\<forall>shuffled st.
         trainBatches shuffled lr 0 st =
           for_each (batches_from 0 shuffled) (\<lambda>batch. trainBatch batch lr) st \<and>
         concat (batches_from 0 shuffled) = shuffled \<and>
         (\<forall>b \<in> set (batches_from 0 shuffled). 0 < length b \<and> length b \<le> 32) \<and>
         (\<forall>k. Suc k < length (batches_from 0 shuffled) \<longrightarrow>
               length (batches_from 0 shuffled ! k) = 32)"
  proof (intro allI conjI impI)
    fix shuffled :: "sample list" and st
    show "trainBatches shuffled lr 0 st =
           for_each (batches_from 0 shuffled) (\<lambda>batch. trainBatch batch lr) st"
      by (rule trainBatches_batches)
    show "concat (batches_from 0 shuffled) = shuffled" by (simp add: concat_batches_from)
    show "\<forall>b \<in> set (batches_from 0 shuffled). 0 < length b \<and> length b \<le> 32"
      using batches_from_sizes [of 0 shuffled] by (simp add: batchSize_def)
    fix k assume "Suc k < length (batches_from 0 shuffled)"
    then show "length (batches_from 0 shuffled ! k) = 32"
      using batches_from_full [of k 0 shuffled] by (simp add: batchSize_def)
  qed
next
  show "\<forall>batch net acc n.
         trainBatch batch lr (net, acc, n) =
           bindE (train_all net lr batch)
             (\<lambda>(losses, net'). Inr (net', foldl jadd acc losses, n + length losses))"
    by (simp add: trainBatch_train_all)
next
  show "\<forall>buf :: sample list.
         (\<forall>g0. valid_rng g0 \<longrightarrow> mset (fst (shuffle buf g0)) = mset buf) \<and>
         (\<forall>g0. snd (shuffle buf g0) = (\<lambda>n. g0 (n + (length buf - 1)))) \<and>
         (\<forall>ys. mset ys = mset buf \<longrightarrow> (\<exists>g0. valid_rng g0 \<and> fst (shuffle buf g0) = ys)) \<and>
         (\<forall>g0 g1. distinct buf \<and> valid_rng g0 \<and> valid_rng g1 \<and>
                  fst (shuffle buf g0) = fst (shuffle buf g1) \<longrightarrow>
            (\<forall>m < length buf - 1.
               nat \<lfloor>g0 m * real (length buf - m)\<rfloor> = nat \<lfloor>g1 m * real (length buf - m)\<rfloor>)) \<and>
         (\<forall>g0. valid_rng g0 \<and> 2 \<le> length buf \<longrightarrow>
            fst (shuffle buf g0) ! (length buf - 1) = buf ! nat \<lfloor>g0 0 * real (length buf)\<rfloor>)"
  proof (intro allI conjI impI)
    fix buf :: "sample list" and g0
    assume "valid_rng g0"
    then show "mset (fst (shuffle buf g0)) = mset buf" by (rule mset_shuffle)
  next
    fix buf :: "sample list" and g0
    show "snd (shuffle buf g0) = (\<lambda>n. g0 (n + (length buf - 1)))" by (rule shuffle_draws)
  next
    fix buf ys :: "sample list"
    assume "mset ys = mset buf"
    then show "\<exists>g0. valid_rng g0 \<and> fst (shuffle buf g0) = ys" by (rule shuffle_reach)
  next
    fix buf :: "sample list" and g0 g1 m
    assume a: "distinct buf \<and> valid_rng g0 \<and> valid_rng g1 \<and>
                  fst (shuffle buf g0) = fst (shuffle buf g1)"
      and m: "m < length buf - 1"
    have "\<forall>m < length buf - 1.
        nat \<lfloor>g0 m * real (length buf - m)\<rfloor> = nat \<lfloor>g1 m * real (length buf - m)\<rfloor>"
      using a by (intro shuffle_inj) simp_all
    then show "nat \<lfloor>g0 m * real (length buf - m)\<rfloor> = nat \<lfloor>g1 m * real (length buf - m)\<rfloor>"
      using m by simp
  next
    fix buf :: "sample list" and g0
    assume a: "valid_rng g0 \<and> 2 \<le> length buf"
    show "fst (shuffle buf g0) ! (length buf - 1) = buf ! nat \<lfloor>g0 0 * real (length buf)\<rfloor>"
      by (rule shuffle_last [OF a [THEN conjunct1] a [THEN conjunct2]])
  qed
qed

lemma filledTrainer_simps [simp]:
  "nn (filledTrainer n) = zeroNet"
  "trainingData (filledTrainer n) = replicate n zeroSample"
  "trainedEpochs (trainingStats (filledTrainer n)) = 0"
  by (simp_all add: filledTrainer_def newTrainer_def)

lemma zeroSample_inputs: "length (inputs zeroSample) = inputSize zeroNet"
  by (simp add: zeroSample_def zeroNet_def)

lemma countingTrainer_simps [simp]:
  "nn (countingTrainer n) = zeroNet"
  "trainingData (countingTrainer n) = map countSample [0..<n]"
  "trainedEpochs (trainingStats (countingTrainer n)) = 0"
  by (simp_all add: countingTrainer_def newTrainer_def)

lemma countSample_inputs: "length (inputs (countSample i)) = inputSize zeroNet"
  by (simp add: countSample_def zeroNet_def)

theorem trainer_train_schedule_witness:
  "length (trainingData (countingTrainer 31)) < 32 \<and>
   trainer_train (countingTrainer 31) (Num 0.1) 10 (\<lambda>n. 0)
     = Inr (Num 0, countingTrainer 31, \<lambda>n. 0) \<and>
   32 \<le> length (trainingData (countingTrainer 32)) \<and>
   (\<exists>orders losses net' g'.
      length orders = 10 \<and>
      orders ! 0 = map countSample ([1..<32] @ [0]) \<and>
      train_all zeroNet (Num 0.1) (concat orders) = Inr (losses, net') \<and>
      length losses = 320 \<and>
      trainer_train (countingTrainer 32) (Num 0.1) 10 (\<lambda>n. 0) =
        Inr (jdiv (foldl jadd (Num 0) losses) (Num 320),
             (countingTrainer 32)\<lparr>nn := net',
                trainingStats := (trainingStats (countingTrainer 32))
                  \<lparr>currentLoss := jdiv (foldl jadd (Num 0) losses) (Num 320),
                   trainedEpochs := 10\<rparr>\<rparr>,
             g')) \<and>
   (\<exists>g0. valid_rng g0 \<and>
      fst (shuffle (map countSample [0..<32]) g0) = rev (map countSample [0..<32]))"
proof -
  have s: "length (trainingData (countingTrainer 31)) < 32" by simp
  have b: "32 \<le> length (trainingData (countingTrainer 32))" by simp
  have small: "trainer_train (countingTrainer 31) (Num 0.1) 10 (\<lambda>n. 0) =
      Inr (Num 0, countingTrainer 31, \<lambda>n. 0)"
    by (rule trainer_train_schedule [of "countingTrainer 31" "Num 0.1" 10 "\<lambda>n. 0",
          THEN conjunct1, THEN mp, OF s])
  from trainer_train_schedule [of "countingTrainer 32" "Num 0.1" 10 "\<lambda>n. 0",
          THEN conjunct2, THEN conjunct1, THEN mp, OF b]
  obtain orders g' where
    lo: "length orders = 10"
    and nth: "\<forall>k < 10. orders ! k =
        fst (shuffle (trainingData (countingTrainer 32))
               (snd (epoch_orders (trainingData (countingTrainer 32)) k (\<lambda>n. 0))))"
    and eq: "trainer_train (countingTrainer 32) (Num 0.1) 10 (\<lambda>n. 0) =
             bindE (train_all (nn (countingTrainer 32)) (Num 0.1) (concat orders))
               (\<lambda>(losses, net').
                  Inr (jdiv (foldl jadd (Num 0) losses) (Num (real (length losses))),
                       (countingTrainer 32)\<lparr>nn := net',
                         trainingStats := (trainingStats (countingTrainer 32))
                           \<lparr>currentLoss :=
                              jdiv (foldl jadd (Num 0) losses) (Num (real (length losses))),
                            trainedEpochs :=
                              trainedEpochs (trainingStats (countingTrainer 32)) + 10\<rparr>\<rparr>,
                       g'))"
    and ok: "valid_rng (\<lambda>n. 0) \<and> well_formed (nn (countingTrainer 32)) \<and>
            (\<forall>s \<in> set (trainingData (countingTrainer 32)).
               length (inputs s) = inputSize (nn (countingTrainer 32))) \<longrightarrow>
              (\<exists>losses net'. train_all (nn (countingTrainer 32)) (Num 0.1) (concat orders)
                   = Inr (losses, net') \<and>
                 length losses = 10 * length (trainingData (countingTrainer 32)))"
    by (elim exE conjE)
  have "orders ! 0 = fst (shuffle (map countSample [0..<32]) (\<lambda>n. 0))"
    using nth [THEN spec, of 0] by simp
  also have "\<dots> = map countSample (rotate1 [0..<32])"
    by (simp only: shuffle_zero rotate1_map)
  also have "rotate1 [0..<32] = [1..<32] @ [0]"
    using upt_conv_Cons [of 0 32] by simp
  finally have first: "orders ! 0 = map countSample ([1..<32] @ [0])" .
  have pre: "valid_rng (\<lambda>n. 0) \<and> well_formed (nn (countingTrainer 32)) \<and>
            (\<forall>s \<in> set (trainingData (countingTrainer 32)).
               length (inputs s) = inputSize (nn (countingTrainer 32)))"
    by (simp add: valid_rng_zero zeroNet_well_formed countSample_inputs)
  from ok [THEN mp, OF pre] obtain losses net' where
    ta: "train_all (nn (countingTrainer 32)) (Num 0.1) (concat orders) = Inr (losses, net')"
    and len: "length losses = 10 * length (trainingData (countingTrainer 32))"
    by (elim exE conjE)
  have ta': "train_all zeroNet (Num 0.1) (concat orders) = Inr (losses, net')"
    using ta by simp
  have len': "length losses = 320" using len by simp
  have big: "trainer_train (countingTrainer 32) (Num 0.1) 10 (\<lambda>n. 0) =
        Inr (jdiv (foldl jadd (Num 0) losses) (Num 320),
             (countingTrainer 32)\<lparr>nn := net',
                trainingStats := (trainingStats (countingTrainer 32))
                  \<lparr>currentLoss := jdiv (foldl jadd (Num 0) losses) (Num 320),
                   trainedEpochs := 10\<rparr>\<rparr>,
             g')"
    unfolding eq ta by (simp add: len')
  have "mset (rev (map countSample [0..<32])) = mset (map countSample [0..<32])"
    by (rule mset_rev)
  from trainer_train_schedule [of "countingTrainer 32" "Num 0.1" 10 "\<lambda>n. 0",
          THEN conjunct2, THEN conjunct2, THEN conjunct2, THEN conjunct2, THEN spec,
          of "map countSample [0..<32]", THEN conjunct2, THEN conjunct2, THEN conjunct1,
          THEN spec, of "rev (map countSample [0..<32])", THEN mp, OF this]
  have reach: "\<exists>g0. valid_rng g0 \<and>
      fst (shuffle (map countSample [0..<32]) g0) = rev (map countSample [0..<32])" .
  show ?thesis
    apply (intro conjI s small b reach)
    apply (rule exI [of _ orders])
    apply (rule exI [of _ losses])
    apply (rule exI [of _ net'])
    apply (rule exI [of _ g'])
    using lo first ta' len' big apply (intro conjI)
        apply assumption+
    done
qed

lemma trainEpochs_count:
  assumes "trainEpochs t lr epochs g = Inr ((net', acc, n), g')"
  shows "n = epochs * length (trainingData t)"
proof -
  let ?orders = "fst (epoch_orders (trainingData t) epochs g)"
  from assms obtain losses net2 where
    a: "train_all (nn t) lr (concat ?orders) = Inr (losses, net2)" and b: "n = length losses"
    by (auto simp: trainEpochs_orders trainBatch_train_all bindE_eq_Inr split: prod.splits)
  have "length losses = length (concat ?orders)" by (rule train_all_length [OF a])
  also have "\<dots> = length ?orders * length (trainingData t)"
    by (rule length_concat_const [OF epoch_orders_lengths])
  finally show ?thesis using b by (simp add: epoch_orders_length)
qed

lemma trainEpochs_succeeds:
  assumes "valid_rng g" and "well_formed (nn t)"
    and "\<forall>s \<in> set (trainingData t). length (inputs s) = inputSize (nn t)"
  shows "\<exists>net' acc n g'. trainEpochs t lr epochs g = Inr ((net', acc, n), g')"
proof -
  let ?orders = "fst (epoch_orders (trainingData t) epochs g)"
  have "\<forall>s \<in> set (concat ?orders). length (inputs s) = inputSize (nn t)"
    by (rule epoch_orders_samples [OF assms(1,3)])
  from train_all_succeeds [OF assms(2) this, of lr] obtain losses net' where
    "train_all (nn t) lr (concat ?orders) = Inr (losses, net')" by blast
  then show ?thesis by (simp add: trainEpochs_orders trainBatch_train_all)
qed

text \<open>
  Claim C10. \<^verbatim>\<open>Trainer.train\<close> divides \<^verbatim>\<open>totalLoss\<close> by \<^verbatim>\<open>samplesTrained\<close> without a test.
  On a buffer of at least 32 samples: whenever the epoch loop of a call with at least one
  epoch returns, \<^verbatim>\<open>samplesTrained\<close> is \<open>epochs * length\<close>, which is positive, and the
  result is that quotient (a real number when \<^verbatim>\<open>totalLoss\<close> is); with \<open>0\<close> epochs the loop
  returns \<^verbatim>\<open>totalLoss = 0\<close> and \<^verbatim>\<open>samplesTrained = 0\<close>, and \<^verbatim>\<open>currentLoss\<close> and the result
  are \<open>0 / 0 = NaN\<close>.
\<close>

theorem train_division_guard:
  assumes "32 \<le> length (trainingData t)"
  shows "(\<forall>net' acc n g'.
            1 \<le> epochs \<and> trainEpochs t lr epochs g = Inr ((net', acc, n), g') \<longrightarrow>
              n = epochs * length (trainingData t) \<and> 0 < n \<and>
              trainer_train t lr epochs g =
                Inr (jdiv acc (Num (real n)),
                     t\<lparr>nn := net',
                       trainingStats := (trainingStats t)
                         \<lparr>currentLoss := jdiv acc (Num (real n)),
                          trainedEpochs := trainedEpochs (trainingStats t) + epochs\<rparr>\<rparr>,
                     g') \<and>
              (is_num acc \<longrightarrow> jdiv acc (Num (real n)) = Num (val acc / real n)))
       \<and> trainEpochs t lr 0 g = Inr ((nn t, Num 0, 0), g)
       \<and> trainer_train t lr 0 g =
           Inr (NaN, t\<lparr>trainingStats := (trainingStats t)\<lparr>currentLoss := NaN\<rparr>\<rparr>, g)
       \<and> jdiv (Num 0) (Num (real 0)) = NaN"
proof (intro conjI allI impI)
  fix net' acc n g'
  assume a: "1 \<le> epochs \<and> trainEpochs t lr epochs g = Inr ((net', acc, n), g')"
  then have e: "trainEpochs t lr epochs g = Inr ((net', acc, n), g')" and p: "1 \<le> epochs"
    by simp_all
  show n: "n = epochs * length (trainingData t)" by (rule trainEpochs_count [OF e])
  have "0 < length (trainingData t)" using assms by linarith
  then show pos: "0 < n" using n p by simp
  show "trainer_train t lr epochs g =
                Inr (jdiv acc (Num (real n)),
                     t\<lparr>nn := net',
                       trainingStats := (trainingStats t)
                         \<lparr>currentLoss := jdiv acc (Num (real n)),
                          trainedEpochs := trainedEpochs (trainingStats t) + epochs\<rparr>\<rparr>,
                     g')"
    using assms by (simp add: trainer_train_def e batchSize_def Let_def)
  assume "is_num acc"
  then show "jdiv acc (Num (real n)) = Num (val acc / real n)"
    using pos by (cases acc) simp_all
next
  show z: "trainEpochs t lr 0 g = Inr ((nn t, Num 0, 0), g)" by (simp add: trainEpochs_def)
  show "trainer_train t lr 0 g =
           Inr (NaN, t\<lparr>trainingStats := (trainingStats t)\<lparr>currentLoss := NaN\<rparr>\<rparr>, g)"
    using assms by (simp add: trainer_train_def z batchSize_def Let_def)
  show "jdiv (Num 0) (Num (real 0)) = NaN" by simp
qed

theorem train_division_guard_witness:
  "32 \<le> length (trainingData (filledTrainer 32)) \<and>
   (\<exists>net' acc g'. trainEpochs (filledTrainer 32) (Num 0.1) 1 (\<lambda>n. 0) = Inr ((net', acc, 32), g')) \<and>
   trainer_train (filledTrainer 32) (Num 0.1) 0 (\<lambda>n. 0) =
     Inr (NaN, (filledTrainer 32)\<lparr>trainingStats :=
                  (trainingStats (filledTrainer 32))\<lparr>currentLoss := NaN\<rparr>\<rparr>, \<lambda>n. 0)"
proof -
  have b: "32 \<le> length (trainingData (filledTrainer 32))" by simp
  note t = train_division_guard [OF b, of 1 "Num 0.1" "\<lambda>n. 0"]
  have "\<exists>net' acc n g'. trainEpochs (filledTrainer 32) (Num 0.1) 1 (\<lambda>n. 0) = Inr ((net', acc, n), g')"
    by (rule trainEpochs_succeeds)
       (simp_all add: valid_rng_zero zeroNet_well_formed zeroSample_inputs)
  then obtain net' acc n g' where
    e: "trainEpochs (filledTrainer 32) (Num 0.1) 1 (\<lambda>n. 0) = Inr ((net', acc, n), g')" by blast
  have "1 \<le> (1::nat) \<and>
      trainEpochs (filledTrainer 32) (Num 0.1) 1 (\<lambda>n. 0) = Inr ((net', acc, n), g')"
    using e by simp
  from t [THEN conjunct1, THEN spec, THEN spec, THEN spec, THEN spec, THEN mp, OF this]
  have "n = 1 * length (trainingData (filledTrainer 32))" by (rule conjunct1)
  then have "n = 32" by simp
  with e have 1: "\<exists>net' acc g'.
      trainEpochs (filledTrainer 32) (Num 0.1) 1 (\<lambda>n. 0) = Inr ((net', acc, 32), g')" by blast
  have 2: "trainer_train (filledTrainer 32) (Num 0.1) 0 (\<lambda>n. 0) =
     Inr (NaN, (filledTrainer 32)\<lparr>trainingStats :=
                  (trainingStats (filledTrainer 32))\<lparr>currentLoss := NaN\<rparr>\<rparr>, \<lambda>n. 0)"
    by (rule train_division_guard [OF b, of 0 "Num 0.1" "\<lambda>n. 0",
          THEN conjunct2, THEN conjunct2, THEN conjunct1])
  show ?thesis by (intro conjI b 1 2)
qed

section \<open>Export and import of the parameters\<close>

lemma parse_stringify: "parse_num (stringify_num x) = reread x"
  by (cases x) simp_all

lemma reread_id: "x \<noteq> NaN \<Longrightarrow> reread x = x"
  by (cases x) simp_all

lemma reread_list: "\<forall>x \<in> set xs. x \<noteq> NaN \<Longrightarrow> map reread xs = xs"
  by (induction xs) (simp_all add: reread_id)

lemma reread_matrix:
  "\<forall>row \<in> set w. \<forall>x \<in> set row. x \<noteq> NaN \<Longrightarrow> map (map reread) w = w"
  by (induction w) (simp_all add: reread_list)

lemma roundtrip_arrays:
  "weightsIH (fromJSON receiver (toJSON net)) = map (map reread) (weightsIH net)"
  "weightsHO (fromJSON receiver (toJSON net)) = map (map reread) (weightsHO net)"
  "biasH (fromJSON receiver (toJSON net)) = map reread (biasH net)"
  "biasO (fromJSON receiver (toJSON net)) = map reread (biasO net)"
  by (simp_all add: fromJSON_def toJSON_def comp_def parse_stringify)

text \<open>
  A training step can leave \<open>NaN\<close> in the parameters: with an empty target vector the
  error of the output unit is \<open>NaN\<close>, and so is its bias after the update.
\<close>

lemma train_reaches_NaN:
  "\<exists>loss net'. train zeroNet [Num 0, Num 0, Num 0, Num 0] [] (Num (1 / 10)) = Inr (loss, net') \<and>
     biasO net' = [NaN]"
proof -
  have wf: "well_formed zeroNet" by (simp add: well_formed_def zeroNet_def)
  have len: "length [Num 0, Num 0, Num 0, Num 0] = inputSize zeroNet" by (simp add: zeroNet_def)
  have "biasO (snd (spec_train zeroNet [Num 0, Num 0, Num 0, Num 0] [] (Num (1 / 10)))) = [NaN]"
    by (simp add: spec_train_def Let_def spec_outputErrors_def aget_def zeroNet_def)
  then show ?thesis
    using train_eq [OF wf len, of "[]" "Num (1 / 10)"]
    by (cases "spec_train zeroNet [Num 0, Num 0, Num 0, Num 0] [] (Num (1 / 10))") simp
qed

text \<open>
  Claim C7, as stated, fails on a model state holding \<open>NaN\<close>: the exported text has
  \<^verbatim>\<open>null\<close> in its place, and the importing network holds \<^verbatim>\<open>null\<close>, not \<open>NaN\<close>.
\<close>

theorem json_roundtrip_counterexample:
  "biasO (fromJSON zeroNet (toJSON (zeroNet\<lparr>biasO := [NaN]\<rparr>))) = [Null] \<and>
   biasO (fromJSON zeroNet (toJSON (zeroNet\<lparr>biasO := [NaN]\<rparr>)))
     \<noteq> biasO (zeroNet\<lparr>biasO := [NaN]\<rparr>)"
  by (simp add: fromJSON_def toJSON_def)

text \<open>
  Claim C7, amended. \<^verbatim>\<open>toJSON\<close> followed by \<^verbatim>\<open>fromJSON\<close> into any receiver gives back the
  four parameter arrays entry for entry, except that an entry \<open>NaN\<close> comes back as
  \<^verbatim>\<open>null\<close>; so for a network none of whose parameters is \<open>NaN\<close> the four arrays are
  reproduced exactly. The import stores the four arrays of the payload as they are,
  \<^verbatim>\<open>null\<close> entries included, whatever the sizes of the receiver, which keeps its declared
  sizes and caches: importing a payload of other dimensions succeeds and leaves a network
  that is not well-formed.
\<close>

theorem json_roundtrip:
  "(weightsIH (fromJSON receiver (toJSON net)) =
      map (map (\<lambda>x. if x = NaN then Null else x)) (weightsIH net) \<and>
    weightsHO (fromJSON receiver (toJSON net)) =
      map (map (\<lambda>x. if x = NaN then Null else x)) (weightsHO net) \<and>
    biasH (fromJSON receiver (toJSON net)) = map (\<lambda>x. if x = NaN then Null else x) (biasH net) \<and>
    biasO (fromJSON receiver (toJSON net)) = map (\<lambda>x. if x = NaN then Null else x) (biasO net))
   \<and> (NaN_free net \<longrightarrow>
      weightsIH (fromJSON receiver (toJSON net)) = weightsIH net \<and>
      weightsHO (fromJSON receiver (toJSON net)) = weightsHO net \<and>
      biasH (fromJSON receiver (toJSON net)) = biasH net \<and>
      biasO (fromJSON receiver (toJSON net)) = biasO net)
   \<and> (weightsIH (fromJSON receiver json) = map (map parse_num) (p_weightsIH json) \<and>
       weightsHO (fromJSON receiver json) = map (map parse_num) (p_weightsHO json) \<and>
       biasH (fromJSON receiver json) = map parse_num (p_biasH json) \<and>
       biasO (fromJSON receiver json) = map parse_num (p_biasO json) \<and>
       inputSize (fromJSON receiver json) = inputSize receiver \<and>
       hiddenSize (fromJSON receiver json) = hiddenSize receiver \<and>
       outputSize (fromJSON receiver json) = outputSize receiver \<and>
       lastInputs (fromJSON receiver json) = lastInputs receiver \<and>
       lastHidden (fromJSON receiver json) = lastHidden receiver \<and>
       lastOutput (fromJSON receiver json) = lastOutput receiver)
   \<and> parse_num None = Null \<and> stringify_num Null = None
   \<and> \<not> well_formed (fromJSON zeroNet (toJSON (zeroNet\<lparr>weightsIH := []\<rparr>)))"
proof -
  have r: "reread = (\<lambda>x. if x = NaN then Null else x)"
  proof
    fix x show "reread x = (if x = NaN then Null else x)" by (cases x) simp_all
  qed
  have 1: "weightsIH (fromJSON receiver (toJSON net)) =
      map (map (\<lambda>x. if x = NaN then Null else x)) (weightsIH net) \<and>
    weightsHO (fromJSON receiver (toJSON net)) =
      map (map (\<lambda>x. if x = NaN then Null else x)) (weightsHO net) \<and>
    biasH (fromJSON receiver (toJSON net)) = map (\<lambda>x. if x = NaN then Null else x) (biasH net) \<and>
    biasO (fromJSON receiver (toJSON net)) = map (\<lambda>x. if x = NaN then Null else x) (biasO net)"
    using roundtrip_arrays [of receiver net] unfolding r by simp
  have 2: "NaN_free net \<longrightarrow>
      weightsIH (fromJSON receiver (toJSON net)) = weightsIH net \<and>
      weightsHO (fromJSON receiver (toJSON net)) = weightsHO net \<and>
      biasH (fromJSON receiver (toJSON net)) = biasH net \<and>
      biasO (fromJSON receiver (toJSON net)) = biasO net"
    by (simp add: roundtrip_arrays NaN_free_def reread_matrix reread_list)
  have 3: "weightsIH (fromJSON receiver json) = map (map parse_num) (p_weightsIH json) \<and>
       weightsHO (fromJSON receiver json) = map (map parse_num) (p_weightsHO json) \<and>
       biasH (fromJSON receiver json) = map parse_num (p_biasH json) \<and>
       biasO (fromJSON receiver json) = map parse_num (p_biasO json) \<and>
       inputSize (fromJSON receiver json) = inputSize receiver \<and>
       hiddenSize (fromJSON receiver json) = hiddenSize receiver \<and>
       outputSize (fromJSON receiver json) = outputSize receiver \<and>
       lastInputs (fromJSON receiver json) = lastInputs receiver \<and>
       lastHidden (fromJSON receiver json) = lastHidden receiver \<and>
       lastOutput (fromJSON receiver json) = lastOutput receiver"
    by (simp add: fromJSON_def)
  have 4: "parse_num None = Null" and 6: "stringify_num Null = None" by simp_all
  have 5: "\<not> well_formed (fromJSON zeroNet (toJSON (zeroNet\<lparr>weightsIH := []\<rparr>)))"
    by (simp add: fromJSON_def toJSON_def well_formed_def zeroNet_def)
  show ?thesis
    by (rule conjI [OF 1 conjI [OF 2 conjI [OF 3 conjI [OF 4 conjI [OF 6 5]]]]])
qed

theorem json_roundtrip_witness:
  "NaN_free (zeroNet\<lparr>biasH := replicate 8 Null\<rparr>) \<and>
   weightsIH (fromJSON (zeroNet\<lparr>weightsIH := []\<rparr>) (toJSON (zeroNet\<lparr>biasH := replicate 8 Null\<rparr>))) =
     replicate 4 (replicate 8 (Num 0)) \<and>
   weightsHO (fromJSON (zeroNet\<lparr>weightsIH := []\<rparr>) (toJSON (zeroNet\<lparr>biasH := replicate 8 Null\<rparr>))) =
     replicate 8 [Num 0] \<and>
   biasH (fromJSON (zeroNet\<lparr>weightsIH := []\<rparr>) (toJSON (zeroNet\<lparr>biasH := replicate 8 Null\<rparr>))) =
     replicate 8 Null \<and>
   biasO (fromJSON (zeroNet\<lparr>weightsIH := []\<rparr>) (toJSON (zeroNet\<lparr>biasH := replicate 8 Null\<rparr>))) =
     [Num 0]"
proof -
  have r: "NaN_free (zeroNet\<lparr>biasH := replicate 8 Null\<rparr>)"
    by (simp add: NaN_free_def zeroNet_def)
  from json_roundtrip [of "zeroNet\<lparr>weightsIH := []\<rparr>" "zeroNet\<lparr>biasH := replicate 8 Null\<rparr>",
      THEN conjunct2, THEN conjunct1, THEN mp, OF r]
  show ?thesis using r by (simp add: zeroNet_def)
qed

section \<open>Copying a network\<close>

lemma length_initializeRow: "length (fst (initializeRow cols g)) = cols"
proof (induction cols arbitrary: g)
  case 0
  show ?case by simp
next
  case (Suc cols)
  obtain r g1 where a: "random g = (r, g1)" by (cases "random g")
  obtain row g2 where b: "initializeRow cols g1 = (row, g2)" by (cases "initializeRow cols g1")
  show ?case using Suc [of g1] a b by simp
qed

lemma initializeWeights_dims:
  "length (fst (initializeWeights rows cols g)) = rows \<and>
   (\<forall>row \<in> set (fst (initializeWeights rows cols g)). length row = cols)"
proof (induction rows arbitrary: g)
  case 0
  show ?case by simp
next
  case (Suc rows)
  obtain row g1 where r: "initializeRow cols g = (row, g1)" by (cases "initializeRow cols g")
  obtain rest g2 where w: "initializeWeights rows cols g1 = (rest, g2)"
    by (cases "initializeWeights rows cols g1")
  have "length row = cols" using length_initializeRow [of cols g] r by simp
  then show ?case using Suc [of g1] r w by simp
qed

lemma constructor_well_formed: "well_formed (fst (constructor i h k g))"
proof -
  obtain wIH g1 where a: "initializeWeights i h g = (wIH, g1)"
    by (cases "initializeWeights i h g")
  obtain wHO g2 where b: "initializeWeights h k g1 = (wHO, g2)"
    by (cases "initializeWeights h k g1")
  show ?thesis
    using initializeWeights_dims [of i h g] initializeWeights_dims [of h k g1] a b
    by (simp add: constructor_def well_formed_def)
qed

lemma copy_row_loop:
  assumes "r < length D" and "length (D ! r) = C" and "r < length S" and "k \<le> C"
  shows "for_each [0..<k]
           (\<lambda>c d. bindE (rowget d r) (\<lambda>drow.
                   bindE (rowget S r) (\<lambda>srow. Inr (d[r := aset drow c (aget srow c)])))) D
         = Inr (D[r := map (\<lambda>c. if c < k then aget (S ! r) c else D ! r ! c) [0..<C]])"
  using assms(4)
proof (induction k)
  case 0
  have "map (\<lambda>c. D ! r ! c) [0..<C] = D ! r" using assms(2) map_nth [of "D ! r"] by simp
  then show ?case by simp
next
  case (Suc k)
  let ?rowk = "map (\<lambda>c. if c < k then aget (S ! r) c else D ! r ! c) [0..<C]"
  let ?body = "\<lambda>c d. bindE (rowget d r) (\<lambda>drow.
                   bindE (rowget S r) (\<lambda>srow. Inr (d[r := aset drow c (aget srow c)])))"
  have ih: "for_each [0..<k] ?body D = Inr (D[r := ?rowk])" using Suc by simp
  have k: "k < C" using Suc.prems by simp
  have e: "aset ?rowk k (aget (S ! r) k) =
           map (\<lambda>c. if c < Suc k then aget (S ! r) c else D ! r ! c) [0..<C]"
    using k by (intro nth_equalityI) (auto simp: aset_def nth_list_update less_Suc_eq)
  have step: "?body k (D[r := ?rowk]) =
      Inr (D[r := map (\<lambda>c. if c < Suc k then aget (S ! r) c else D ! r ! c) [0..<C]])"
  proof -
    have rg: "rowget (D[r := ?rowk]) r = Inr ?rowk" using assms(1) by (simp add: rowget_def)
    have rs: "rowget S r = Inr (S ! r)" using assms(3) by (simp add: rowget_def)
    show ?thesis by (simp only: rg rs bindE_Inr e list_update_overwrite)
  qed
  have "for_each [0..<Suc k] ?body D = bindE (for_each [0..<k] ?body D) (?body k)"
    by (simp only: upt_Suc_append [OF le0] for_each_snoc)
  then show ?case by (simp only: ih bindE_Inr step)
qed

lemma copyEntries_eq:
  assumes "length D = R" and "\<forall>row \<in> set D. length row = C" and "R \<le> length S"
  shows "copyEntries S D R C = Inr (map (\<lambda>r. map (\<lambda>c. aget (S ! r) c) [0..<C]) [0..<R])"
proof -
  let ?body = "\<lambda>r. for_each [0..<C]
       (\<lambda>c d. bindE (rowget d r) (\<lambda>drow.
               bindE (rowget S r) (\<lambda>srow. Inr (d[r := aset drow c (aget srow c)]))))"
  have "k \<le> R \<Longrightarrow> for_each [0..<k] ?body D =
      Inr (map (\<lambda>r. if r < k then map (\<lambda>c. aget (S ! r) c) [0..<C] else D ! r) [0..<R])" for k
  proof (induction k)
    case 0
    have "map (\<lambda>r. D ! r) [0..<R] = D" using assms(1) map_nth [of D] by simp
    then show ?case by simp
  next
    case (Suc k)
    let ?Dk = "map (\<lambda>r. if r < k then map (\<lambda>c. aget (S ! r) c) [0..<C] else D ! r) [0..<R]"
    have ih: "for_each [0..<k] ?body D = Inr ?Dk" using Suc by simp
    have k: "k < R" using Suc.prems by simp
    have r: "?Dk ! k = D ! k" using k by simp
    have l: "length (?Dk ! k) = C" using k assms(1,2) by (simp add: r)
    have kl: "k < length ?Dk" using k by simp
    have ks: "k < length S" using k assms(3) by simp
    have "map (\<lambda>c. if c < C then aget (S ! k) c else ?Dk ! k ! c) [0..<C]
        = map (\<lambda>c. aget (S ! k) c) [0..<C]" by simp
    with copy_row_loop [OF kl l ks le_refl]
    have step: "?body k ?Dk = Inr (?Dk[k := map (\<lambda>c. aget (S ! k) c) [0..<C]])"
      by (simp only:)
    have e: "?Dk[k := map (\<lambda>c. aget (S ! k) c) [0..<C]] =
       map (\<lambda>r. if r < Suc k then map (\<lambda>c. aget (S ! r) c) [0..<C] else D ! r) [0..<R]"
      using k by (intro nth_equalityI) (auto simp: nth_list_update less_Suc_eq)
    have "for_each [0..<Suc k] ?body D = bindE (for_each [0..<k] ?body D) (?body k)"
      by (simp only: upt_Suc_append [OF le0] for_each_snoc)
    then show ?case by (simp only: ih bindE_Inr step e)
  qed
  from this [of R] show ?thesis by (simp add: copyEntries_def)
qed

lemma matrix_reread:
  assumes "length S = R" and "\<forall>row \<in> set S. length row = C"
  shows "map (\<lambda>r. map (\<lambda>c. aget (S ! r) c) [0..<C]) [0..<R] = S"
proof (rule nth_equalityI)
  show "length (map (\<lambda>r. map (\<lambda>c. aget (S ! r) c) [0..<C]) [0..<R]) = length S"
    using assms(1) by simp
next
  fix r assume "r < length (map (\<lambda>r. map (\<lambda>c. aget (S ! r) c) [0..<C]) [0..<R])"
  then have r: "r < R" by simp
  then have l: "length (S ! r) = C" using assms by simp
  have "map (\<lambda>c. aget (S ! r) c) [0..<C] = S ! r"
    using l by (intro nth_equalityI) (simp_all add: aget_nth)
  then show "map (\<lambda>r. map (\<lambda>c. aget (S ! r) c) [0..<C]) [0..<R] ! r = S ! r"
    using r by simp
qed

lemma copy_eq:
  assumes "well_formed net"
  shows "copy net g =
     Inr (net\<lparr>lastInputs := None, lastHidden := None, lastOutput := None\<rparr>,
          snd (constructor (inputSize net) (hiddenSize net) (outputSize net) g))"
proof -
  obtain new g1 where c: "constructor (inputSize net) (hiddenSize net) (outputSize net) g = (new, g1)"
    by (cases "constructor (inputSize net) (hiddenSize net) (outputSize net) g")
  have w: "well_formed new"
    using constructor_well_formed [of "inputSize net" "hiddenSize net" "outputSize net" g] c by simp
  have sz: "inputSize new = inputSize net" "hiddenSize new = hiddenSize net"
      "outputSize new = outputSize net"
      "lastInputs new = None" "lastHidden new = None" "lastOutput new = None"
    using c by (auto simp: constructor_def Let_def split: prod.splits)
  have 1: "copyEntries (weightsIH net) (weightsIH new) (inputSize net) (hiddenSize net)
      = Inr (weightsIH net)"
  proof -
    have "copyEntries (weightsIH net) (weightsIH new) (inputSize net) (hiddenSize net)
      = Inr (map (\<lambda>r. map (\<lambda>c. aget (weightsIH net ! r) c) [0..<hiddenSize net]) [0..<inputSize net])"
      using w assms sz by (intro copyEntries_eq) (simp_all add: well_formed_def)
    then show ?thesis using matrix_reread [of "weightsIH net" "inputSize net" "hiddenSize net"] assms
      by (simp add: well_formed_def)
  qed
  have 2: "copyEntries (weightsHO net) (weightsHO new) (hiddenSize net) (outputSize net)
      = Inr (weightsHO net)"
  proof -
    have "copyEntries (weightsHO net) (weightsHO new) (hiddenSize net) (outputSize net)
      = Inr (map (\<lambda>r. map (\<lambda>c. aget (weightsHO net ! r) c) [0..<outputSize net]) [0..<hiddenSize net])"
      using w assms sz by (intro copyEntries_eq) (simp_all add: well_formed_def)
    then show ?thesis using matrix_reread [of "weightsHO net" "hiddenSize net" "outputSize net"] assms
      by (simp add: well_formed_def)
  qed
  have "new\<lparr>weightsIH := weightsIH net, weightsHO := weightsHO net,
            biasH := biasH net, biasO := biasO net\<rparr>
      = net\<lparr>lastInputs := None, lastHidden := None, lastOutput := None\<rparr>"
    using sz by simp
  then show ?thesis by (simp add: copy_def c 1 2)
qed

lemma heap_rows_RowArray: "w < length h \<Longrightarrow> h ! w = RowArray rs \<Longrightarrow> heap_rows h w = rs"
  by (simp add: heap_rows_def)

lemma heap_initRows_eq:
  "w < length h \<Longrightarrow> h ! w = RowArray rs \<Longrightarrow>
   heap_initRows rows cols w g h =
     (snd (initializeWeights rows cols g),
      h[w := RowArray (rs @ [length h ..< length h + rows])]
        @ map NumArray (fst (initializeWeights rows cols g)))"
proof (induction rows arbitrary: h rs g)
  case 0
  then show ?case using list_update_id [of h w] by simp
next
  case (Suc rows)
  obtain row g1 where r: "initializeRow cols g = (row, g1)" by (cases "initializeRow cols g")
  obtain rest g2 where m: "initializeWeights rows cols g1 = (rest, g2)"
    by (cases "initializeWeights rows cols g1")
  let ?h2 = "h[w := RowArray (rs @ [length h])] @ [NumArray row]"
  have r1: "heap_rows (h @ [NumArray row]) w = rs"
    using Suc.prems by (intro heap_rows_RowArray) (simp_all add: nth_append)
  have w2: "w < length ?h2" using Suc.prems(1) by simp
  have c2: "?h2 ! w = RowArray (rs @ [length h])" using Suc.prems(1) by (simp add: nth_append)
  have x: "[length h ..< Suc (length h + rows)] = length h # [Suc (length h) ..< Suc (length h + rows)]"
    by (rule upt_conv_Cons) simp
  have "heap_initRows (Suc rows) cols w g h = heap_initRows rows cols w g1 ?h2"
    using Suc.prems(1) by (simp add: r alloc_def r1 list_update_append1)
  also have "\<dots> = (snd (initializeWeights rows cols g1),
      ?h2[w := RowArray ((rs @ [length h]) @ [length ?h2 ..< length ?h2 + rows])]
        @ map NumArray (fst (initializeWeights rows cols g1)))"
    by (rule Suc.IH [OF w2 c2])
  also have "\<dots> = (snd (initializeWeights (Suc rows) cols g),
      h[w := RowArray (rs @ [length h ..< length h + Suc rows])]
        @ map NumArray (fst (initializeWeights (Suc rows) cols g)))"
    using Suc.prems(1) by (simp add: r m x list_update_append1 del: upt_Suc)
  finally show ?case .
qed

lemma heap_initializeWeights_eq:
  "heap_initializeWeights rows cols g h =
     (length h, snd (initializeWeights rows cols g),
      h @ [RowArray [Suc (length h) ..< Suc (length h) + rows]]
        @ map NumArray (fst (initializeWeights rows cols g)))"
proof -
  let ?h1 = "h @ [RowArray []]"
  have "heap_initRows rows cols (length h) g ?h1 =
     (snd (initializeWeights rows cols g),
      ?h1[length h := RowArray ([] @ [length ?h1 ..< length ?h1 + rows])]
        @ map NumArray (fst (initializeWeights rows cols g)))"
    by (rule heap_initRows_eq) simp_all
  then show ?thesis by (simp add: heap_initializeWeights_def alloc_def)
qed

lemma for_each_sim:
  assumes "\<And>i s. i \<in> set xs \<Longrightarrow> I s \<Longrightarrow>
             bh i (emb s) = bindE (bv i s) (\<lambda>v. Inr (emb v)) \<and> (\<forall>s'. bv i s = Inr s' \<longrightarrow> I s')"
    and "I s"
  shows "for_each xs bh (emb s) = bindE (for_each xs bv s) (\<lambda>v. Inr (emb v)) \<and>
         (\<forall>s'. for_each xs bv s = Inr s' \<longrightarrow> I s')"
  using assms
proof (induction xs arbitrary: s)
  case Nil
  then show ?case by simp
next
  case (Cons x xs)
  have st: "bh x (emb s) = bindE (bv x s) (\<lambda>v. Inr (emb v))" and inv: "\<forall>s'. bv x s = Inr s' \<longrightarrow> I s'"
    using Cons.prems(1) [of x s] Cons.prems(2) by simp_all
  show ?case
  proof (cases "bv x s")
    case (Inl e)
    then show ?thesis using st by simp
  next
    case (Inr s1)
    have i1: "I s1" using inv Inr by simp
    have "for_each xs bh (emb s1) = bindE (for_each xs bv s1) (\<lambda>v. Inr (emb v)) \<and>
         (\<forall>s'. for_each xs bv s1 = Inr s' \<longrightarrow> I s')"
    proof (rule Cons.IH [OF _ i1])
      fix i s2 assume "i \<in> set xs" and "I s2"
      then show "bh i (emb s2) = bindE (bv i s2) (\<lambda>v. Inr (emb v)) \<and>
                 (\<forall>s'. bv i s2 = Inr s' \<longrightarrow> I s')"
        using Cons.prems(1) [of i s2] by simp
    qed
    then show ?thesis using st Inr by simp
  qed
qed

lemma heap_copyEntry_step:
  assumes "dst < length A" and "A ! dst = RowArray [length A ..< length A + R]"
    and "src < length A" and "A ! src = RowArray srs" and "\<forall>s \<in> set srs. s < length A"
    and "r < R" and "R \<le> length srs" and "length D = R"
  shows "heap_copyEntry src dst r c (A @ map NumArray D @ B) =
     Inr (A @ map NumArray (D[r := aset (D ! r) c (aget (heap_nums A (srs ! r)) c)]) @ B)"
proof -
  let ?h = "A @ map NumArray D @ B"
  have d: "heap_rows ?h dst = [length A ..< length A + R]"
    using assms(1,2) by (intro heap_rows_RowArray) (simp_all add: nth_append)
  have s: "heap_rows ?h src = srs"
    using assms(3,4) by (intro heap_rows_RowArray) (simp_all add: nth_append)
  have dr: "heap_row ?h dst r = Inr (length A + r)" using assms(6) by (simp add: heap_row_def d)
  have sr: "heap_row ?h src r = Inr (srs ! r)" using assms(6,7) by (simp add: heap_row_def s)
  have sl: "srs ! r < length A" using assms(5,6,7) by simp
  have n1: "heap_nums ?h (length A + r) = D ! r"
    using assms(6,8) by (simp add: heap_nums_def nth_append)
  have n2: "heap_nums ?h (srs ! r) = heap_nums A (srs ! r)"
    using sl by (simp add: heap_nums_def nth_append)
  have u: "?h[length A + r := NumArray v] = A @ map NumArray (D[r := v]) @ B" for v
    using assms(6,8) by (simp add: list_update_append map_update)
  show ?thesis by (simp add: heap_copyEntry_def dr sr n1 n2 u)
qed

lemma heap_copyEntries_eq:
  assumes "dst < length A" and "A ! dst = RowArray [length A ..< length A + R]"
    and "src < length A" and "A ! src = RowArray srs" and "\<forall>s \<in> set srs. s < length A"
    and "R \<le> length srs" and "length D = R" and "\<forall>row \<in> set D. length row = C"
  shows "heap_copyEntries src dst R C (A @ map NumArray D @ B) =
     Inr (A @ map NumArray
            (map (\<lambda>r. map (\<lambda>c. aget (heap_nums A (srs ! r)) c) [0..<C]) [0..<R]) @ B)"
proof -
  let ?S = "map (heap_nums A) srs"
  let ?emb = "\<lambda>D. A @ map NumArray D @ B"
  let ?I = "\<lambda>D :: jsnum list list. length D = R"
  let ?bv = "\<lambda>r c d. bindE (rowget d r) (\<lambda>drow.
                   bindE (rowget ?S r) (\<lambda>srow. Inr (d[r := aset drow c (aget srow c)])))"
  have inner: "for_each [0..<C] (\<lambda>c. heap_copyEntry src dst r c) (?emb D') =
        bindE (for_each [0..<C] (?bv r) D') (\<lambda>v. Inr (?emb v)) \<and>
        (\<forall>s'. for_each [0..<C] (?bv r) D' = Inr s' \<longrightarrow> ?I s')"
    if r: "r \<in> set [0..<R]" and i: "?I D'" for r D'
  proof (rule for_each_sim [where I = ?I])
    show "?I D'" by (rule i)
  next
    fix c D2 assume "c \<in> set [0..<C]" and i2: "length (D2 :: jsnum list list) = R"
    have r': "r < R" using r by simp
    have v: "?bv r c D2 = Inr (D2[r := aset (D2 ! r) c (aget (heap_nums A (srs ! r)) c)])"
      using r' i2 assms(6) by (simp add: rowget_def)
    show "heap_copyEntry src dst r c (?emb D2) = bindE (?bv r c D2) (\<lambda>v. Inr (?emb v)) \<and>
          (\<forall>s'. ?bv r c D2 = Inr s' \<longrightarrow> ?I s')"
      using heap_copyEntry_step [OF assms(1-5) r' assms(6) i2, of c B] i2
      by (simp only: v) auto
  qed
  have outer: "for_each [0..<R] (\<lambda>r. for_each [0..<C] (\<lambda>c. heap_copyEntry src dst r c)) (?emb D) =
        bindE (for_each [0..<R] (\<lambda>r. for_each [0..<C] (?bv r)) D) (\<lambda>v. Inr (?emb v)) \<and>
        (\<forall>s'. for_each [0..<R] (\<lambda>r. for_each [0..<C] (?bv r)) D = Inr s' \<longrightarrow> ?I s')"
    by (rule for_each_sim [where I = ?I]) (use inner assms(7) in auto)
  have val: "copyEntries ?S D R C =
      Inr (map (\<lambda>r. map (\<lambda>c. aget (?S ! r) c) [0..<C]) [0..<R])"
    using assms(6,7,8) by (intro copyEntries_eq) simp_all
  have re: "map (\<lambda>r. map (\<lambda>c. aget (?S ! r) c) [0..<C]) [0..<R] =
      map (\<lambda>r. map (\<lambda>c. aget (heap_nums A (srs ! r)) c) [0..<C]) [0..<R]"
    using assms(6) by simp
  show ?thesis
    using outer val unfolding re
    by (simp add: heap_copyEntries_def copyEntries_def)
qed

lemma heap_nums_append_left: "r < length A \<Longrightarrow> heap_nums (A @ B) r = heap_nums A r"
  by (simp add: heap_nums_def nth_append)

lemma heap_rows_append_left: "w < length A \<Longrightarrow> heap_rows (A @ B) w = heap_rows A w"
  by (simp add: heap_rows_def nth_append)

lemma heap_matrix_append_left:
  assumes "w < length A" and "\<forall>r \<in> set (heap_rows A w). r < length A"
  shows "heap_matrix (A @ B) w = heap_matrix A w"
  using assms by (simp add: heap_matrix_def heap_rows_append_left heap_nums_append_left)

lemma heap_rows_block:
  "heap_rows (A @ RowArray rs # B) (length A) = rs"
  by (simp add: heap_rows_def)

lemma heap_nums_block:
  "i < length M \<Longrightarrow> heap_nums (A @ RowArray rs # map NumArray M @ B) (Suc (length A) + i) = M ! i"
  by (simp add: heap_nums_def nth_append)

lemma heap_matrix_block:
  "heap_matrix (A @ RowArray [Suc (length A) ..< Suc (length A) + length M] # map NumArray M @ B)
     (length A) = M"
proof -
  let ?h = "A @ RowArray [Suc (length A) ..< Suc (length A) + length M] # map NumArray M @ B"
  have "map (heap_nums ?h) [Suc (length A) ..< Suc (length A) + length M] = M"
  proof (rule nth_equalityI)
    show "length (map (heap_nums ?h) [Suc (length A) ..< Suc (length A) + length M]) = length M"
      by (simp del: upt_Suc)
  next
    fix i assume "i < length (map (heap_nums ?h) [Suc (length A) ..< Suc (length A) + length M])"
    then have i: "i < length M" by (simp del: upt_Suc)
    then have "[Suc (length A) ..< Suc (length A) + length M] ! i = Suc (length A) + i"
      by (simp del: upt_Suc)
    then show "map (heap_nums ?h) [Suc (length A) ..< Suc (length A) + length M] ! i = M ! i"
      using i heap_nums_block [OF i, of A _ B] by (simp del: upt_Suc)
  qed
  then show ?thesis by (simp add: heap_matrix_def heap_rows_block)
qed

lemma allocated_matrix:
  assumes "w < length h" and "is_rows (h ! w)" and "\<forall>r \<in> set (heap_rows h w). r < length h"
    and "length (heap_matrix h w) = R" and "\<forall>row \<in> set (heap_matrix h w). length row = C"
  shows "h ! w = RowArray (heap_rows h w) \<and> R \<le> length (heap_rows h w) \<and>
         map (\<lambda>r. map (\<lambda>c. aget (heap_nums h (heap_rows h w ! r)) c) [0..<C]) [0..<R]
           = heap_matrix h w"
proof -
  obtain rs where rs: "h ! w = RowArray rs" using assms(2) by (cases "h ! w") simp_all
  have hr: "heap_rows h w = rs" by (rule heap_rows_RowArray [OF assms(1) rs])
  have len: "length (heap_rows h w) = R" using assms(4) by (simp add: heap_matrix_def)
  have "map (\<lambda>r. map (\<lambda>c. aget (heap_matrix h w ! r) c) [0..<C]) [0..<R] = heap_matrix h w"
    by (rule matrix_reread [OF assms(4,5)])
  moreover have "map (\<lambda>r. map (\<lambda>c. aget (heap_matrix h w ! r) c) [0..<C]) [0..<R]
      = map (\<lambda>r. map (\<lambda>c. aget (heap_nums h (heap_rows h w ! r)) c) [0..<C]) [0..<R]"
    using len by (simp add: heap_matrix_def)
  ultimately show ?thesis using rs hr len by simp
qed

lemma heap_copy_eq:
  assumes al: "allocated h this" and wf: "well_formed (abs_network h this)"
  shows "\<exists>clone ext.
     heap_copy this g h =
       Inr (clone, snd (constructor (o_inputSize this) (o_hiddenSize this) (o_outputSize this) g),
            h @ ext) \<and>
     cells_of (h @ ext) clone \<subseteq> {length h ..< length (h @ ext)} \<and>
     allocated (h @ ext) clone \<and>
     abs_network (h @ ext) clone = abs_network h this"
proof -
  define I where "I = o_inputSize this"
  define H where "H = o_hiddenSize this"
  define K where "K = o_outputSize this"
  define s1 where "s1 = o_weightsIH this"
  define s2 where "s2 = o_weightsHO this"
  define MIH where "MIH = fst (initializeWeights I H g)"
  define g1 where "g1 = snd (initializeWeights I H g)"
  define MHO where "MHO = fst (initializeWeights H K g1)"
  define g2 where "g2 = snd (initializeWeights H K g1)"
  define WIH where "WIH = heap_matrix h s1"
  define WHO where "WHO = heap_matrix h s2"
  define r1 where "r1 = [Suc (length h) ..< Suc (length h) + I]"
  define A2 where "A2 = h @ RowArray r1 # map NumArray WIH"
  define r2 where "r2 = [Suc (length A2) ..< Suc (length A2) + H]"
  define zH where "zH = NumArray (replicate H (Num 0))"
  define zK where "zK = NumArray (replicate K (Num 0))"
  define bH where "bH = NumArray (heap_nums h (o_biasH this))"
  define bK where "bK = NumArray (heap_nums h (o_biasO this))"
  define ext where
    "ext = RowArray r1 # map NumArray WIH @ RowArray r2 # map NumArray WHO @ [zH, zK, bH, bK]"
  define clone where
    "clone = \<lparr>o_inputSize = I, o_hiddenSize = H, o_outputSize = K,
              o_weightsIH = length h, o_weightsHO = length A2,
              o_biasH = length A2 + H + 3, o_biasO = length A2 + H + 4\<rparr>"
  have lM1: "length MIH = I" and rM1: "\<forall>row \<in> set MIH. length row = H"
    using initializeWeights_dims [of I H g] by (simp_all add: MIH_def)
  have lM2: "length MHO = H" and rM2: "\<forall>row \<in> set MHO. length row = K"
    using initializeWeights_dims [of H K g1] by (simp_all add: MHO_def)
  have cells: "\<forall>a \<in> cells_of h this. a < length h"
    and ir1: "is_rows (h ! s1)" and ir2: "is_rows (h ! s2)"
    using al by (simp_all add: allocated_def s1_def s2_def)
  have s1l: "s1 < length h" and s2l: "s2 < length h"
    and bHl: "o_biasH this < length h" and bKl: "o_biasO this < length h"
    and rows1: "\<forall>r \<in> set (heap_rows h s1). r < length h"
    and rows2: "\<forall>r \<in> set (heap_rows h s2). r < length h"
    using cells by (simp_all add: cells_of_def s1_def s2_def)
  have lW1: "length WIH = I" and rW1: "\<forall>row \<in> set WIH. length row = H"
    and lW2: "length WHO = H" and rW2: "\<forall>row \<in> set WHO. length row = K"
    using wf by (simp_all add: well_formed_def abs_network_def WIH_def WHO_def s1_def s2_def
        I_def H_def K_def)
  note m1 = allocated_matrix [OF s1l ir1 rows1 lW1 [unfolded WIH_def] rW1 [unfolded WIH_def]]
  note m2 = allocated_matrix [OF s2l ir2 rows2 lW2 [unfolded WHO_def] rW2 [unfolded WHO_def]]
  have lA2: "length A2 = Suc (length h) + I" by (simp add: A2_def lW1)
  \<comment> \<open>the constructor\<close>
  have i1: "heap_initializeWeights I H g h = (length h, g1, h @ RowArray r1 # map NumArray MIH)"
    by (simp add: heap_initializeWeights_eq MIH_def g1_def r1_def)
  have i2: "heap_initializeWeights H K g1 (h @ RowArray r1 # map NumArray MIH) =
      (length A2, g2, (h @ RowArray r1 # map NumArray MIH) @ RowArray r2 # map NumArray MHO)"
    by (simp add: heap_initializeWeights_eq MHO_def g2_def r2_def lA2 lM1)
  define new where
    "new = \<lparr>o_inputSize = I, o_hiddenSize = H, o_outputSize = K,
            o_weightsIH = length h, o_weightsHO = length A2,
            o_biasH = length A2 + H + 1, o_biasO = length A2 + H + 2\<rparr>"
  define h1 where
    "h1 = (h @ [RowArray r1]) @ map NumArray MIH @ (RowArray r2 # map NumArray MHO @ [zH, zK])"
  have con: "heap_constructor I H K g h = (new, g2, h1)"
    by (simp add: heap_constructor_def i1 i2 alloc_def new_def h1_def zH_def zK_def lA2 lM1 lM2)
  \<comment> \<open>the first double loop\<close>
  define h2 where
    "h2 = (A2 @ [RowArray r2]) @ map NumArray MHO @ [zH, zK]"
  have c1: "heap_copyEntries s1 (length h) I H h1 = Inr h2"
  proof -
    have "heap_copyEntries s1 (length h) I H h1 =
       Inr ((h @ [RowArray r1]) @ map NumArray
            (map (\<lambda>r. map (\<lambda>c. aget (heap_nums (h @ [RowArray r1]) (heap_rows h s1 ! r)) c)
                      [0..<H]) [0..<I])
            @ (RowArray r2 # map NumArray MHO @ [zH, zK]))"
      unfolding h1_def
    proof (rule heap_copyEntries_eq)
      show "length h < length (h @ [RowArray r1])" by simp
      show "(h @ [RowArray r1]) ! length h =
          RowArray [length (h @ [RowArray r1]) ..< length (h @ [RowArray r1]) + I]"
        by (simp add: r1_def)
      show "s1 < length (h @ [RowArray r1])" using s1l by simp
      show "(h @ [RowArray r1]) ! s1 = RowArray (heap_rows h s1)"
        using s1l m1 by (simp add: nth_append)
      show "\<forall>s \<in> set (heap_rows h s1). s < length (h @ [RowArray r1])" using rows1 by auto
      show "I \<le> length (heap_rows h s1)" using m1 by simp
      show "length MIH = I" by (rule lM1)
      show "\<forall>row \<in> set MIH. length row = H" by (rule rM1)
    qed
    moreover have "map (\<lambda>r. map (\<lambda>c. aget (heap_nums (h @ [RowArray r1]) (heap_rows h s1 ! r)) c)
                      [0..<H]) [0..<I] = WIH"
    proof -
      have "\<And>r. r < I \<Longrightarrow> heap_nums (h @ [RowArray r1]) (heap_rows h s1 ! r)
            = heap_nums h (heap_rows h s1 ! r)"
        using rows1 m1 by (simp add: heap_nums_append_left)
      then have "map (\<lambda>r. map (\<lambda>c. aget (heap_nums (h @ [RowArray r1]) (heap_rows h s1 ! r)) c)
                      [0..<H]) [0..<I]
          = map (\<lambda>r. map (\<lambda>c. aget (heap_nums h (heap_rows h s1 ! r)) c) [0..<H]) [0..<I]"
        by simp
      then show ?thesis using m1 by (simp add: WIH_def)
    qed
    ultimately show ?thesis by (simp add: h2_def A2_def)
  qed
  \<comment> \<open>the second double loop\<close>
  define h3 where "h3 = h @ ext"
  have c2: "heap_copyEntries s2 (length A2) H K h2 =
      Inr ((A2 @ [RowArray r2]) @ map NumArray WHO @ [zH, zK])"
  proof -
    have "heap_copyEntries s2 (length A2) H K h2 =
       Inr ((A2 @ [RowArray r2]) @ map NumArray
            (map (\<lambda>r. map (\<lambda>c. aget (heap_nums (A2 @ [RowArray r2]) (heap_rows h s2 ! r)) c)
                      [0..<K]) [0..<H])
            @ [zH, zK])"
      unfolding h2_def
    proof (rule heap_copyEntries_eq)
      show "length A2 < length (A2 @ [RowArray r2])" by simp
      show "(A2 @ [RowArray r2]) ! length A2 =
          RowArray [length (A2 @ [RowArray r2]) ..< length (A2 @ [RowArray r2]) + H]"
        by (simp add: r2_def)
      show "s2 < length (A2 @ [RowArray r2])" using s2l by (simp add: A2_def)
      show "(A2 @ [RowArray r2]) ! s2 = RowArray (heap_rows h s2)"
        using s2l m2 by (simp add: nth_append A2_def)
      show "\<forall>s \<in> set (heap_rows h s2). s < length (A2 @ [RowArray r2])"
        using rows2 by (auto simp: A2_def)
      show "H \<le> length (heap_rows h s2)" using m2 by simp
      show "length MHO = H" by (rule lM2)
      show "\<forall>row \<in> set MHO. length row = K" by (rule rM2)
    qed
    moreover have "map (\<lambda>r. map (\<lambda>c. aget (heap_nums (A2 @ [RowArray r2]) (heap_rows h s2 ! r)) c)
                      [0..<K]) [0..<H] = WHO"
    proof -
      have "\<And>r. r < H \<Longrightarrow> heap_nums (A2 @ [RowArray r2]) (heap_rows h s2 ! r)
            = heap_nums h (heap_rows h s2 ! r)"
        using rows2 m2 by (simp add: A2_def heap_nums_append_left)
      then have "map (\<lambda>r. map (\<lambda>c. aget (heap_nums (A2 @ [RowArray r2]) (heap_rows h s2 ! r)) c)
                      [0..<K]) [0..<H]
          = map (\<lambda>r. map (\<lambda>c. aget (heap_nums h (heap_rows h s2 ! r)) c) [0..<K]) [0..<H]"
        by simp
      then show ?thesis using m2 by (simp add: WHO_def)
    qed
    ultimately show ?thesis by simp
  qed
  \<comment> \<open>the whole of copy\<close>
  have n1: "heap_nums ((A2 @ [RowArray r2]) @ map NumArray WHO @ [zH, zK]) (o_biasH this)
      = heap_nums h (o_biasH this)"
    using bHl by (simp add: A2_def heap_nums_append_left)
  have n2: "heap_nums (((A2 @ [RowArray r2]) @ map NumArray WHO @ [zH, zK]) @ [bH]) (o_biasO this)
      = heap_nums h (o_biasO this)"
    using bKl by (simp add: A2_def heap_nums_append_left)
  have res: "heap_copy this g h = Inr (clone, g2, h @ ext)"
    using con c1 c2 n1 n2
    by (simp add: heap_copy_def I_def [symmetric] H_def [symmetric] K_def [symmetric]
        s1_def [symmetric] s2_def [symmetric] new_def alloc_def clone_def ext_def A2_def
        bH_def bK_def lW1 lW2)
  have g: "g2 = snd (constructor I H K g)"
    by (simp add: constructor_def g2_def g1_def split: prod.splits)
  have e1: "h @ ext = h @ RowArray [Suc (length h) ..< Suc (length h) + length WIH]
        # map NumArray WIH @ (RowArray r2 # map NumArray WHO @ [zH, zK, bH, bK])"
    by (simp add: ext_def r1_def lW1 del: upt_Suc)
  have e2: "h @ ext = A2 @ RowArray [Suc (length A2) ..< Suc (length A2) + length WHO]
        # map NumArray WHO @ [zH, zK, bH, bK]"
    by (simp add: ext_def A2_def r2_def lW2 del: upt_Suc)
  have e3: "h @ ext = (A2 @ RowArray r2 # map NumArray WHO) @ [zH, zK, bH, bK]"
    by (simp add: ext_def A2_def)
  have l3: "length (A2 @ RowArray r2 # map NumArray WHO) = length A2 + H + 1"
    by (simp add: lW2)
  have len: "length (h @ ext) = length A2 + H + 5" by (simp add: e3 lW2)
  have mIH: "heap_matrix (h @ ext) (length h) = WIH"
    by (subst e1) (rule heap_matrix_block)
  have mHO: "heap_matrix (h @ ext) (length A2) = WHO"
    by (subst e2) (rule heap_matrix_block)
  have rIH: "heap_rows (h @ ext) (length h) = r1"
    unfolding ext_def by (rule heap_rows_block)
  have rHO: "heap_rows (h @ ext) (length A2) = r2"
    unfolding e2 r2_def lW2 by (rule heap_rows_block)
  have nH: "heap_nums (h @ ext) (length A2 + H + 3) = heap_nums h (o_biasH this)"
    unfolding e3 using l3 by (simp add: heap_nums_def nth_append bH_def)
  have nK: "heap_nums (h @ ext) (length A2 + H + 4) = heap_nums h (o_biasO this)"
    unfolding e3 using l3 by (simp add: heap_nums_def nth_append bK_def)
  have cIH: "(h @ ext) ! length h = RowArray r1" by (simp add: ext_def)
  have cHO: "(h @ ext) ! length A2 = RowArray r2"
    unfolding e3 by (simp add: nth_append)
  have sr1: "set r1 = {Suc (length h) ..< Suc (length h) + I}"
    unfolding r1_def by (rule set_upt)
  have sr2: "set r2 = {Suc (length A2) ..< Suc (length A2) + H}"
    unfolding r2_def by (rule set_upt)
  have t1: "heap_copy this g h =
       Inr (clone, snd (constructor (o_inputSize this) (o_hiddenSize this) (o_outputSize this) g),
            h @ ext)"
    using res g by (simp add: I_def H_def K_def)
  have cells': "cells_of (h @ ext) clone =
      {length h, length A2, length A2 + H + 3, length A2 + H + 4} \<union> set r1 \<union> set r2"
    by (simp add: cells_of_def clone_def rIH rHO)
  have t2: "cells_of (h @ ext) clone \<subseteq> {length h ..< length (h @ ext)}"
    unfolding cells' sr1 sr2 len using lA2 by auto
  have t3: "allocated (h @ ext) clone"
    unfolding allocated_def using t2 cIH cHO by (auto simp: clone_def)
  have t4: "abs_network (h @ ext) clone = abs_network h this"
    by (simp add: abs_network_def clone_def mIH mHO nH [unfolded H_def] nK [unfolded H_def]
        WIH_def WHO_def s1_def s2_def I_def H_def K_def)
  show ?thesis
    apply (rule exI [of _ clone])
    apply (rule exI [of _ ext])
    using t1 t2 t3 t4 apply (intro conjI)
       apply assumption+
    done
qed

lemma forwardPass_caches:
  "forwardPass (net\<lparr>lastInputs := a, lastHidden := b, lastOutput := c\<rparr>) xs = forwardPass net xs"
proof -
  let ?n = "net\<lparr>lastInputs := a, lastHidden := b, lastOutput := c\<rparr>"
  have hs: "hiddenSum ?n xs = hiddenSum net xs"
    by (rule ext) (simp add: hiddenSum_def)
  have hl: "hiddenLayer ?n xs = hiddenLayer net xs"
    by (simp add: hiddenLayer_def hs)
  have os: "outputSum ?n hid = outputSum net hid" for hid
    by (rule ext) (simp add: outputSum_def)
  have ol: "outputLayer ?n hid = outputLayer net hid" for hid
    by (simp add: outputLayer_def os)
  show ?thesis by (simp add: forwardPass_def hl ol)
qed

lemma heap_rows_update: "a \<noteq> w \<Longrightarrow> heap_rows (h[a := c]) w = heap_rows h w"
  by (simp add: heap_rows_def)

lemma heap_nums_update: "a \<noteq> r \<Longrightarrow> heap_nums (h[a := c]) r = heap_nums h r"
  by (simp add: heap_nums_def)

lemma heap_matrix_update:
  assumes "a \<noteq> w" and "a \<notin> set (heap_rows h w)"
  shows "heap_matrix (h[a := c]) w = heap_matrix h w"
proof -
  have "map (heap_nums (h[a := c])) (heap_rows h w) = map (heap_nums h) (heap_rows h w)"
  proof (rule map_cong [OF refl])
    fix x assume "x \<in> set (heap_rows h w)"
    then have "a \<noteq> x" using assms(2) by auto
    then show "heap_nums (h[a := c]) x = heap_nums h x" by (rule heap_nums_update)
  qed
  then show ?thesis using assms(1) by (simp add: heap_matrix_def heap_rows_update)
qed

lemma abs_network_update:
  assumes "a \<notin> cells_of h ob"
  shows "abs_network (h[a := c]) ob = abs_network h ob"
  using assms by (simp add: abs_network_def cells_of_def heap_matrix_update heap_nums_update)

lemma cells_of_append:
  assumes "\<forall>a \<in> cells_of h ob. a < length h"
  shows "cells_of (h @ ext) ob = cells_of h ob"
  using assms by (simp add: cells_of_def heap_rows_append_left)

lemma abs_network_append:
  assumes "\<forall>a \<in> cells_of h ob. a < length h"
  shows "abs_network (h @ ext) ob = abs_network h ob"
proof -
  have "heap_matrix (h @ ext) (o_weightsIH ob) = heap_matrix h (o_weightsIH ob)"
    using assms by (intro heap_matrix_append_left) (simp_all add: cells_of_def)
  moreover have "heap_matrix (h @ ext) (o_weightsHO ob) = heap_matrix h (o_weightsHO ob)"
    using assms by (intro heap_matrix_append_left) (simp_all add: cells_of_def)
  ultimately show ?thesis
    using assms by (simp add: abs_network_def cells_of_def heap_nums_append_left)
qed

text \<open>
  Claim C8. The copy of a well-formed network has the same three sizes and the same four
  parameter arrays, has no cached activations, and \<^verbatim>\<open>forwardPass\<close> gives on it exactly what
  it gives on the source, for every input (and returns, for inputs of length
  \<^verbatim>\<open>inputSize\<close>). In the store, \<^verbatim>\<open>copy\<close> only allocates: the array objects of the copy (the
  two outer arrays, every row, the two biases) are new cells, disjoint from the cells of
  the source, which are left as they were; the networks the two objects stand for are the
  value-level copy and its source. So writing any cell of the source afterwards leaves
  the parameters of the copy unchanged, and writing any cell of the copy leaves those of
  the source unchanged.
\<close>

theorem copy_independent:
  "(well_formed net \<longrightarrow>
      (\<exists>clone g'. copy net g = Inr (clone, g') \<and>
         inputSize clone = inputSize net \<and> hiddenSize clone = hiddenSize net \<and>
         outputSize clone = outputSize net \<and>
         weightsIH clone = weightsIH net \<and> weightsHO clone = weightsHO net \<and>
         biasH clone = biasH net \<and> biasO clone = biasO net \<and>
         lastInputs clone = None \<and> lastHidden clone = None \<and> lastOutput clone = None \<and>
         (\<forall>xs. forwardPass clone xs = forwardPass net xs) \<and>
         (\<forall>xs. length xs = inputSize net \<longrightarrow>
            (\<exists>out net'. forwardPass net xs = Inr (out, net')))))
   \<and> (allocated h this \<and> well_formed (abs_network h this) \<longrightarrow>
      (\<exists>clone g' ext.
         heap_copy this g h = Inr (clone, g', h @ ext) \<and>
         copy (abs_network h this) g = Inr (abs_network (h @ ext) clone, g') \<and>
         abs_network (h @ ext) this = abs_network h this \<and>
         cells_of (h @ ext) this = cells_of h this \<and>
         cells_of (h @ ext) this \<inter> cells_of (h @ ext) clone = {} \<and>
         (\<forall>a c. a \<in> cells_of (h @ ext) this \<longrightarrow>
            abs_network ((h @ ext)[a := c]) clone = abs_network (h @ ext) clone) \<and>
         (\<forall>a c. a \<in> cells_of (h @ ext) clone \<longrightarrow>
            abs_network ((h @ ext)[a := c]) this = abs_network (h @ ext) this)))"
proof (intro conjI impI)
  assume w: "well_formed net"
  let ?clone = "net\<lparr>lastInputs := None, lastHidden := None, lastOutput := None\<rparr>"
  let ?g' = "snd (constructor (inputSize net) (hiddenSize net) (outputSize net) g)"
  have 1: "copy net g = Inr (?clone, ?g')" by (rule copy_eq [OF w])
  have 2: "\<forall>xs. forwardPass ?clone xs = forwardPass net xs" by (simp add: forwardPass_caches)
  have 3: "\<forall>xs. length xs = inputSize net \<longrightarrow> (\<exists>out net'. forwardPass net xs = Inr (out, net'))"
    using forwardPass_eq [OF w] by blast
  show "\<exists>clone g'. copy net g = Inr (clone, g') \<and>
         inputSize clone = inputSize net \<and> hiddenSize clone = hiddenSize net \<and>
         outputSize clone = outputSize net \<and>
         weightsIH clone = weightsIH net \<and> weightsHO clone = weightsHO net \<and>
         biasH clone = biasH net \<and> biasO clone = biasO net \<and>
         lastInputs clone = None \<and> lastHidden clone = None \<and> lastOutput clone = None \<and>
         (\<forall>xs. forwardPass clone xs = forwardPass net xs) \<and>
         (\<forall>xs. length xs = inputSize net \<longrightarrow>
            (\<exists>out net'. forwardPass net xs = Inr (out, net')))"
    apply (rule exI [of _ ?clone])
    apply (rule exI [of _ ?g'])
    using 1 2 3 apply simp
    done
next
  assume "allocated h this \<and> well_formed (abs_network h this)"
  then have al: "allocated h this" and w: "well_formed (abs_network h this)" by simp_all
  let ?g' = "snd (constructor (o_inputSize this) (o_hiddenSize this) (o_outputSize this) g)"
  from heap_copy_eq [OF al w, of g] obtain clone ext where
    a: "heap_copy this g h = Inr (clone, ?g', h @ ext)"
    and b: "cells_of (h @ ext) clone \<subseteq> {length h ..< length (h @ ext)}"
    and c: "abs_network (h @ ext) clone = abs_network h this"
    by (elim exE conjE)
  have cells: "\<forall>a \<in> cells_of h this. a < length h" using al by (simp add: allocated_def)
  have 1: "copy (abs_network h this) g = Inr (abs_network (h @ ext) clone, ?g')"
    using copy_eq [OF w, of g] by (simp add: c) (simp add: abs_network_def)
  have 2: "abs_network (h @ ext) this = abs_network h this"
    by (rule abs_network_append [OF cells])
  have 3: "cells_of (h @ ext) this = cells_of h this"
    by (rule cells_of_append [OF cells])
  have 4: "cells_of (h @ ext) this \<inter> cells_of (h @ ext) clone = {}"
    unfolding 3 using cells b by fastforce
  have 5: "\<forall>a c. a \<in> cells_of (h @ ext) this \<longrightarrow>
            abs_network ((h @ ext)[a := c]) clone = abs_network (h @ ext) clone"
    using 4 by (auto intro!: abs_network_update)
  have 6: "\<forall>a c. a \<in> cells_of (h @ ext) clone \<longrightarrow>
            abs_network ((h @ ext)[a := c]) this = abs_network (h @ ext) this"
    using 4 by (auto intro!: abs_network_update)
  show "\<exists>clone g' ext.
         heap_copy this g h = Inr (clone, g', h @ ext) \<and>
         copy (abs_network h this) g = Inr (abs_network (h @ ext) clone, g') \<and>
         abs_network (h @ ext) this = abs_network h this \<and>
         cells_of (h @ ext) this = cells_of h this \<and>
         cells_of (h @ ext) this \<inter> cells_of (h @ ext) clone = {} \<and>
         (\<forall>a c. a \<in> cells_of (h @ ext) this \<longrightarrow>
            abs_network ((h @ ext)[a := c]) clone = abs_network (h @ ext) clone) \<and>
         (\<forall>a c. a \<in> cells_of (h @ ext) clone \<longrightarrow>
            abs_network ((h @ ext)[a := c]) this = abs_network (h @ ext) this)"
    apply (rule exI [of _ clone])
    apply (rule exI [of _ ?g'])
    apply (rule exI [of _ ext])
    using a 1 2 3 4 5 6 apply (intro conjI)
          apply assumption+
    done
qed

lemma tiny_cells: "cells_of tinyHeap tinyObject = {0, 1, 2, 3, 4, 5}"
  by (auto simp: cells_of_def tinyHeap_def tinyObject_def heap_rows_def)

lemma tiny_allocated: "allocated tinyHeap tinyObject"
  unfolding allocated_def tiny_cells by (simp add: tinyHeap_def tinyObject_def)

lemma tiny_abs:
  "abs_network tinyHeap tinyObject =
     \<lparr>inputSize = 1, hiddenSize = 1, outputSize = 1,
      weightsIH = [[Num 0]], weightsHO = [[Num 0]], biasH = [Num 0], biasO = [Num 0],
      lastInputs = None, lastHidden = None, lastOutput = None\<rparr>"
  by (simp add: abs_network_def tinyHeap_def tinyObject_def heap_matrix_def heap_rows_def
      heap_nums_def)

lemma tiny_well_formed: "well_formed (abs_network tinyHeap tinyObject)"
  unfolding tiny_abs by (simp add: well_formed_def)

theorem copy_independent_witness:
  "well_formed zeroNet \<and>
   (\<exists>clone g'. copy zeroNet (\<lambda>n. 0) = Inr (clone, g') \<and>
      weightsIH clone = replicate 4 (replicate 8 (Num 0)) \<and> lastOutput clone = None \<and>
      forwardPass clone [Num 0, Num 0, Num 0, Num 0]
        = forwardPass zeroNet [Num 0, Num 0, Num 0, Num 0]) \<and>
   allocated tinyHeap tinyObject \<and> well_formed (abs_network tinyHeap tinyObject) \<and>
   (\<exists>clone g' ext.
      heap_copy tinyObject (\<lambda>n. 0) tinyHeap = Inr (clone, g', tinyHeap @ ext) \<and>
      cells_of (tinyHeap @ ext) tinyObject = {0, 1, 2, 3, 4, 5} \<and>
      cells_of (tinyHeap @ ext) tinyObject \<inter> cells_of (tinyHeap @ ext) clone = {} \<and>
      weightsIH (abs_network (tinyHeap @ ext) clone) = [[Num 0]])"
proof -
  note t = copy_independent [of zeroNet "\<lambda>n. 0" tinyHeap tinyObject]
  have w: "well_formed zeroNet" by (rule zeroNet_well_formed)
  have p: "allocated tinyHeap tinyObject \<and> well_formed (abs_network tinyHeap tinyObject)"
    by (simp add: tiny_allocated tiny_well_formed)
  from t [THEN conjunct1, THEN mp, OF w] obtain clone g' where
    a: "copy zeroNet (\<lambda>n. 0) = Inr (clone, g')" and b: "weightsIH clone = weightsIH zeroNet"
    and c: "lastOutput clone = None" and d: "\<forall>xs. forwardPass clone xs = forwardPass zeroNet xs"
    by (elim exE conjE)
  have 1: "\<exists>clone g'. copy zeroNet (\<lambda>n. 0) = Inr (clone, g') \<and>
      weightsIH clone = replicate 4 (replicate 8 (Num 0)) \<and> lastOutput clone = None \<and>
      forwardPass clone [Num 0, Num 0, Num 0, Num 0]
        = forwardPass zeroNet [Num 0, Num 0, Num 0, Num 0]"
    apply (rule exI [of _ clone])
    apply (rule exI [of _ g'])
    using a b c d apply (simp add: zeroNet_def)
    done
  from t [THEN conjunct2, THEN mp, OF p] obtain hclone hg ext where
    e: "heap_copy tinyObject (\<lambda>n. 0) tinyHeap = Inr (hclone, hg, tinyHeap @ ext)"
    and f: "copy (abs_network tinyHeap tinyObject) (\<lambda>n. 0)
              = Inr (abs_network (tinyHeap @ ext) hclone, hg)"
    and i: "cells_of (tinyHeap @ ext) tinyObject = cells_of tinyHeap tinyObject"
    and j: "cells_of (tinyHeap @ ext) tinyObject \<inter> cells_of (tinyHeap @ ext) hclone = {}"
    by (elim exE conjE)
  have "copy (abs_network tinyHeap tinyObject) (\<lambda>n. 0)
      = Inr ((abs_network tinyHeap tinyObject)
               \<lparr>lastInputs := None, lastHidden := None, lastOutput := None\<rparr>,
             snd (constructor (inputSize (abs_network tinyHeap tinyObject))
                    (hiddenSize (abs_network tinyHeap tinyObject))
                    (outputSize (abs_network tinyHeap tinyObject)) (\<lambda>n. 0)))"
    by (rule copy_eq [OF tiny_well_formed])
  with f have "abs_network (tinyHeap @ ext) hclone =
      (abs_network tinyHeap tinyObject)\<lparr>lastInputs := None, lastHidden := None, lastOutput := None\<rparr>"
    by simp
  then have k: "weightsIH (abs_network (tinyHeap @ ext) hclone) = [[Num 0]]"
    by (simp add: tiny_abs)
  have 2: "\<exists>clone g' ext.
      heap_copy tinyObject (\<lambda>n. 0) tinyHeap = Inr (clone, g', tinyHeap @ ext) \<and>
      cells_of (tinyHeap @ ext) tinyObject = {0, 1, 2, 3, 4, 5} \<and>
      cells_of (tinyHeap @ ext) tinyObject \<inter> cells_of (tinyHeap @ ext) clone = {} \<and>
      weightsIH (abs_network (tinyHeap @ ext) clone) = [[Num 0]]"
    apply (rule exI [of _ hclone])
    apply (rule exI [of _ hg])
    apply (rule exI [of _ ext])
    using e i j k apply (simp add: tiny_cells)
    done
  show ?thesis
    using w 1 tiny_allocated tiny_well_formed 2 by (intro conjI)
qed

end
